theory Spec2Isabelle
  imports Main "HOL-Library.Word" "HOL-Library.Char_ord" "HOL-Library.List_Lexorder"
begin

section \<open>Compose ports and service names (pkg/cli/compose.go)\<close>

text \<open>
  Go strings are byte sequences and are modelled as \<open>string\<close> (a list of 8-bit
  characters). Process-wide variables (\<open>HadWarnings\<close>) and the lines handed to the
  logger are threaded through explicitly in a record.
\<close>

subsection \<open>Service names\<close>

definition isUpper :: "char \<Rightarrow> bool" where
  "isUpper c = (65 \<le> (of_char c :: nat) \<and> (of_char c :: nat) \<le> 90)"

definition isAlnum :: "char \<Rightarrow> bool" where
  "isAlnum c =
     ((97 \<le> (of_char c :: nat) \<and> (of_char c :: nat) \<le> 122) \<or>
      (65 \<le> (of_char c :: nat) \<and> (of_char c :: nat) \<le> 90) \<or>
      (48 \<le> (of_char c :: nat) \<and> (of_char c :: nat) \<le> 57))"

definition isASCII :: "char \<Rightarrow> bool" where
  "isASCII c = ((of_char c :: nat) < 128)"

definition asciiLower :: "char \<Rightarrow> char" where
  "asciiLower c = (if isUpper c then char_of ((of_char c :: nat) + 32) else c)"

text \<open>
  \<open>strings.ToLower\<close>: a string of ASCII bytes only is lowered byte by byte; any other
  string goes through \<open>strings.Map(unicode.ToLower, s)\<close>, which needs the Unicode case
  tables of the Go library and is therefore the parameter \<open>unicodeLower\<close>.
\<close>

definition strings_ToLower :: "(string \<Rightarrow> string) \<Rightarrow> string \<Rightarrow> string" where
  "strings_ToLower unicodeLower s =
     (if list_all isASCII s then map asciiLower s else unicodeLower s)"

text \<open>
  \<open>nonAlphanumeric.ReplaceAllLiteralString(s, "-")\<close> for the pattern \<open>[^a-zA-Z0-9]+\<close>:
  every maximal run of bytes outside the class is replaced by one hyphen. Every byte of a
  multi-byte or invalid UTF-8 sequence is at least 128 and so lies outside the class, hence
  runs of runes and runs of bytes coincide.
\<close>

function replaceNonAlphanumeric :: "string \<Rightarrow> string" where
  "replaceNonAlphanumeric [] = []"
| "replaceNonAlphanumeric (c # cs) =
     (if isAlnum c then c # replaceNonAlphanumeric cs
      else CHR ''-'' # replaceNonAlphanumeric (dropWhile (\<lambda>d. \<not> isAlnum d) cs))"
  by pat_completeness auto
termination
  by (relation "measure length") (auto simp: less_Suc_eq_le length_dropWhile_le)

definition NormalizeServiceName :: "(string \<Rightarrow> string) \<Rightarrow> string \<Rightarrow> string" where
  "NormalizeServiceName unicodeLower s =
     replaceNonAlphanumeric (strings_ToLower unicodeLower s)"

subsection \<open>Ports\<close>

datatype Protocol =
  Protocol_ANY | Protocol_UDP | Protocol_TCP | Protocol_HTTP | Protocol_HTTP2 | Protocol_GRPC

datatype Mode = Mode_HOST | Mode_INGRESS

text \<open>\<open>compose.ServicePortConfig\<close>, the fields \<open>convertPort\<close> reads.\<close>

record ServicePortConfig =
  cfg_Mode :: string
  cfg_HostIP :: string
  cfg_Target :: "32 word"
  cfg_Published :: string
  cfg_Protocol :: string

text \<open>
  \<open>v1.Port\<close>. A freshly built \<open>&v1.Port{Target: t}\<close> holds the zero values
  \<open>Protocol_ANY\<close> and \<open>Mode_HOST\<close> (TestConvertPort compares the result of the
  ingress-with-published case, which never assigns the mode, with \<open>Mode_HOST\<close>).
\<close>

record Port =
  pb_Target :: "32 word"
  pb_Protocol :: Protocol
  pb_Mode :: Mode

datatype port_error =
  ErrPortTarget "32 word"
| ErrPortHostIP
| ErrPortPublished string
| ErrPortProtocol string
| ErrPortMode string

record globals =
  HadWarnings :: bool
  Warnings :: "string list"

definition warn :: "string \<Rightarrow> globals \<Rightarrow> globals" where
  "warn msg g = g\<lparr>HadWarnings := True, Warnings := Warnings g @ [msg]\<rparr>"

text \<open>\<open>strconv.FormatUint(n, 10)\<close>.\<close>

function FormatUint :: "nat \<Rightarrow> string" where
  "FormatUint n =
     (if n < 10 then [''0123456789'' ! n]
      else FormatUint (n div 10) @ [''0123456789'' ! (n mod 10)])"
  by pat_completeness auto
termination
  by (relation "measure id") auto

definition newPort :: "32 word \<Rightarrow> Port" where
  "newPort t = \<lparr>pb_Target = t, pb_Protocol = Protocol_ANY, pb_Mode = Mode_HOST\<rparr>"

text \<open>The second \<open>switch\<close> of \<open>convertPort\<close>, on \<open>port.Mode\<close>.\<close>

definition convertPort_mode ::
  "ServicePortConfig \<Rightarrow> Port \<Rightarrow> globals \<Rightarrow> (port_error + Port) \<times> globals" where
  "convertPort_mode port pbPort g =
     (if cfg_Mode port = '''' then
        (Inr (pbPort\<lparr>pb_Mode := Mode_HOST\<rparr>),
         warn ''No port mode was specified; assuming 'host' (add 'mode' to silence)'' g)
      else if cfg_Mode port = ''host'' then
        (Inr (pbPort\<lparr>pb_Mode := Mode_HOST\<rparr>), g)
      else if cfg_Mode port = ''ingress'' then
        (if cfg_Published port \<noteq> '''' then
           (Inr pbPort,
            warn ''Published ports are not supported in ingress mode; assuming 'host' (add 'mode' to silence)'' g)
         else if pb_Protocol pbPort = Protocol_TCP \<or> pb_Protocol pbPort = Protocol_UDP then
           (Inr (pbPort\<lparr>pb_Mode := Mode_INGRESS, pb_Protocol := Protocol_HTTP\<rparr>),
            warn ''TCP ingress is not supported; assuming HTTP'' g)
         else
           (Inr (pbPort\<lparr>pb_Mode := Mode_INGRESS\<rparr>), g))
      else (Inl (ErrPortMode (cfg_Mode port)), g))"

definition convertPort ::
  "ServicePortConfig \<Rightarrow> globals \<Rightarrow> (port_error + Port) \<times> globals" where
  "convertPort port g =
     (if cfg_Target port < 1 \<or> cfg_Target port > 32767 then
        (Inl (ErrPortTarget (cfg_Target port)), g)
      else if cfg_HostIP port \<noteq> '''' then
        (Inl ErrPortHostIP, g)
      else if cfg_Published port \<noteq> '''' \<and>
              cfg_Published port \<noteq> FormatUint (unat (cfg_Target port)) then
        (Inl (ErrPortPublished (cfg_Published port)), g)
      else if cfg_Protocol port = '''' then
        convertPort_mode port ((newPort (cfg_Target port))\<lparr>pb_Protocol := Protocol_ANY\<rparr>) g
      else if cfg_Protocol port = ''tcp'' then
        convertPort_mode port ((newPort (cfg_Target port))\<lparr>pb_Protocol := Protocol_TCP\<rparr>) g
      else if cfg_Protocol port = ''udp'' then
        convertPort_mode port ((newPort (cfg_Target port))\<lparr>pb_Protocol := Protocol_UDP\<rparr>) g
      else if cfg_Protocol port = ''http'' then
        convertPort_mode port ((newPort (cfg_Target port))\<lparr>pb_Protocol := Protocol_HTTP\<rparr>) g
      else if cfg_Protocol port = ''http2'' then
        convertPort_mode port ((newPort (cfg_Target port))\<lparr>pb_Protocol := Protocol_HTTP2\<rparr>) g
      else if cfg_Protocol port = ''grpc'' then
        convertPort_mode port ((newPort (cfg_Target port))\<lparr>pb_Protocol := Protocol_GRPC\<rparr>) g
      else (Inl (ErrPortProtocol (cfg_Protocol port)), g))"

section \<open>The build context packager (pkg/cli/compose.go)\<close>

text \<open>
  \<open>createTarball\<close> reads the file system and calls the Go libraries for ignore files,
  tar and gzip. The model makes both explicit.

  \<^item> The file system is a value of type \<open>filesystem\<close>: \<open>os_Lstat\<close> gives the tree found at
    a path (what \<open>os.Lstat\<close>, \<open>os.ReadDir\<close> and \<open>DirEntry.Info\<close> report, taken at one
    moment, so \<open>Info\<close> and the recorded sizes agree with the contents), and \<open>os_Open\<close>
    gives what opening a path and reading it to the end yields. The ignore files are read
    through \<open>os_Open\<close>, because \<open>filepath.Join\<close> and \<open>os.Open\<close> resolve \<open>..\<close> and
    symbolic links, which the walk does not follow; the regular files met by the walk
    carry their contents in the tree.
  \<^item> The libraries whose code is not part of the repository are the fields of a record
    \<open>libs\<close>: parsing and compiling ignore patterns, the bytes of a tar header, the gzip
    stream, SHA-256. Every statement below holds for every value of these fields.
  \<^item> The context is either cancelled for the whole call or not (\<open>ctx_Err\<close>); a
    cancellation that arrives in the middle of a call is outside the model.
  \<^item> Lines written to the logger are left out.
  \<^item> The host is a Unix one: the path separator is the slash.
\<close>

subsection \<open>Errors\<close>

datatype error =
  ErrExternal string
| ErrInvalidBuildContext error
| ErrTooLarge
| ErrDockerfile string

text \<open>
  What a function handed to \<open>filepath.WalkDir\<close> returns when it does not return
  \<open>nil\<close>: the sentinel \<open>filepath.SkipDir\<close> or an error of its own. No library and no
  file operation ever returns the sentinel.
\<close>

datatype walk_error = SkipDir | Err error

subsection \<open>Paths (path/filepath)\<close>

definition Separator :: char where
  "Separator = CHR ''/''"

fun splitOn :: "char \<Rightarrow> string \<Rightarrow> string list" where
  "splitOn c [] = [[]]"
| "splitOn c (x # xs) =
     (if x = c then [] # splitOn c xs
      else (case splitOn c xs of [] \<Rightarrow> [[x]] | w # ws \<Rightarrow> (x # w) # ws))"

fun joinWith :: "string \<Rightarrow> string list \<Rightarrow> string" where
  "joinWith sep [] = []"
| "joinWith sep [x] = x"
| "joinWith sep (x # y # ys) = x @ sep @ joinWith sep (y # ys)"

text \<open>
  \<open>filepath.Clean\<close>: the elements of the path are scanned from the left; empty elements
  and \<open>.\<close> are dropped, \<open>..\<close> removes the element before it unless that is itself
  \<open>..\<close> or there is none, in which case it stays (relative path) or is dropped (rooted
  path). The elements kept are held with the last one first.
\<close>

definition cleanStep :: "bool \<Rightarrow> string list \<Rightarrow> string \<Rightarrow> string list" where
  "cleanStep rooted kept c =
     (if c = '''' \<or> c = ''.'' then kept
      else if c = ''..'' then
        (case kept of
           [] \<Rightarrow> (if rooted then [] else [''..''])
         | t # ts \<Rightarrow> (if t = ''..'' then ''..'' # kept else ts))
      else c # kept)"

definition filepath_Clean :: "string \<Rightarrow> string" where
  "filepath_Clean path =
     (let rooted = (path \<noteq> [] \<and> hd path = Separator);
          kept = rev (foldl (cleanStep rooted) [] (splitOn Separator path));
          out = (if rooted then [Separator] else []) @ joinWith [Separator] kept
      in if out = [] then ''.'' else out)"

definition filepath_Join :: "string \<Rightarrow> string \<Rightarrow> string" where
  "filepath_Join a b =
     (if a \<noteq> [] then filepath_Clean (a @ [Separator] @ b)
      else if b \<noteq> [] then filepath_Clean b
      else [])"


definition filepath_ToSlash :: "string \<Rightarrow> string" where
  "filepath_ToSlash path =
     (if Separator = CHR ''/'' then path
      else map (\<lambda>c. if c = Separator then CHR ''/'' else c) path)"

subsection \<open>The file system\<close>

record FileInfo =
  fi_Name :: string
  fi_Perm :: nat
  fi_ModTime :: int
  fi_Uid :: nat
  fi_Gid :: nat
  fi_Uname :: string
  fi_Gname :: string

text \<open>
  A regular file carries the outcome of opening and reading it, a directory the error of
  \<open>os.ReadDir\<close> if it has one and its entries in the order \<open>os.ReadDir\<close> returns them
  (sorted by file name). \<open>Special\<close> stands for devices and named pipes.
\<close>

datatype node =
  Regular FileInfo "error + string"
| Directory FileInfo "error option" "node list"
| Symlink FileInfo
| Special FileInfo
| Socket FileInfo

fun Info :: "node \<Rightarrow> FileInfo" where
  "Info (Regular fi c) = fi"
| "Info (Directory fi e ds) = fi"
| "Info (Symlink fi) = fi"
| "Info (Special fi) = fi"
| "Info (Socket fi) = fi"

definition Name :: "node \<Rightarrow> string" where
  "Name d = fi_Name (Info d)"

fun IsDir :: "node \<Rightarrow> bool" where
  "IsDir (Directory fi e ds) = True"
| "IsDir d = False"

fun IsRegular :: "node \<Rightarrow> bool" where
  "IsRegular (Regular fi c) = True"
| "IsRegular d = False"

fun Size :: "node \<Rightarrow> nat" where
  "Size (Regular fi (Inr content)) = length content"
| "Size d = 0"

record filesystem =
  os_Lstat :: "string \<Rightarrow> error + node"
  os_Open :: "string \<Rightarrow> error + (error + string)"
  os_Getwd :: "error + string"

subsection \<open>filepath.WalkDir\<close>

text \<open>
  The function handed to \<open>WalkDir\<close> receives the path, the entry (none when the root
  cannot be examined) and the error met, and returns an error or none; it works on a state
  of type \<open>'s\<close>. A path below the root is kept as the list of the file names that lead
  to it: the root is \<open>[]\<close>, \<open>filepath.Join(path, name)\<close> appends a name, and
  \<open>filepath.Rel(root, path)\<close> is the names joined by the separator.
\<close>

type_synonym 's WalkDirFunc =
  "string list \<Rightarrow> node option \<Rightarrow> error option \<Rightarrow> 's \<Rightarrow> walk_error option \<times> 's"

fun walkDir ::
    "'s WalkDirFunc \<Rightarrow> string list \<Rightarrow> node \<Rightarrow> 's \<Rightarrow> walk_error option \<times> 's"
  and walkDirs ::
    "'s WalkDirFunc \<Rightarrow> string list \<Rightarrow> node list \<Rightarrow> 's \<Rightarrow> walk_error option \<times> 's"
where
  "walkDir fn path (Directory fi rderr dirs) s =
     (case fn path (Some (Directory fi rderr dirs)) None s of
        (Some err, s1) \<Rightarrow> (if err = SkipDir then (None, s1) else (Some err, s1))
      | (None, s1) \<Rightarrow>
          (case rderr of
             None \<Rightarrow> walkDirs fn path dirs s1
           | Some e \<Rightarrow>
               (case fn path (Some (Directory fi rderr dirs)) (Some e) s1 of
                  (Some err, s2) \<Rightarrow> (if err = SkipDir then (None, s2) else (Some err, s2))
                | (None, s2) \<Rightarrow> walkDirs fn path dirs s2)))"
| "walkDir fn path (Regular fi c) s = fn path (Some (Regular fi c)) None s"
| "walkDir fn path (Symlink fi) s = fn path (Some (Symlink fi)) None s"
| "walkDir fn path (Special fi) s = fn path (Some (Special fi)) None s"
| "walkDir fn path (Socket fi) s = fn path (Some (Socket fi)) None s"
| "walkDirs fn path [] s = (None, s)"
| "walkDirs fn path (d1 # ds) s =
     (case walkDir fn (path @ [Name d1]) d1 s of
        (Some err, s1) \<Rightarrow> (if err = SkipDir then (None, s1) else (Some err, s1))
      | (None, s1) \<Rightarrow> walkDirs fn path ds s1)"

definition WalkDir ::
  "filesystem \<Rightarrow> string \<Rightarrow> 's WalkDirFunc \<Rightarrow> 's \<Rightarrow> error option \<times> 's" where
  "WalkDir fs root fn s =
     (case (case os_Lstat fs root of
              Inl err \<Rightarrow> fn [] None (Some err) s
            | Inr d \<Rightarrow> walkDir fn [] d s) of
        (Some SkipDir, s1) \<Rightarrow> (None, s1)
      | (Some (Err err), s1) \<Rightarrow> (Some err, s1)
      | (None, s1) \<Rightarrow> (None, s1))"

subsection \<open>archive/tar, compress/gzip and the other libraries\<close>

datatype Typeflag = TypeReg | TypeDir | TypeSymlink | TypeSpecial

record Header =
  hdr_Typeflag :: Typeflag
  hdr_Name :: string
  hdr_Linkname :: string
  hdr_Size :: nat
  hdr_Mode :: nat
  hdr_Uid :: nat
  hdr_Gid :: nat
  hdr_Uname :: string
  hdr_Gname :: string
  hdr_ModTime :: int

text \<open>
  \<open>tar.FileInfoHeader(fi, link)\<close> as the library documents it: name, mode, modification
  time, owner and group come from the file; a regular file records its size, a directory
  gets a slash after its name, a symbolic link records \<open>link\<close> as its target, and a socket
  is refused.
\<close>

definition headerOf :: "node \<Rightarrow> Typeflag \<Rightarrow> string \<Rightarrow> string \<Rightarrow> Header" where
  "headerOf d flag name link =
     \<lparr>hdr_Typeflag = flag, hdr_Name = name, hdr_Linkname = link, hdr_Size = Size d,
      hdr_Mode = fi_Perm (Info d), hdr_Uid = fi_Uid (Info d), hdr_Gid = fi_Gid (Info d),
      hdr_Uname = fi_Uname (Info d), hdr_Gname = fi_Gname (Info d),
      hdr_ModTime = fi_ModTime (Info d)\<rparr>"

fun tar_FileInfoHeader :: "node \<Rightarrow> string \<Rightarrow> error + Header" where
  "tar_FileInfoHeader (Regular fi c) link = Inr (headerOf (Regular fi c) TypeReg (fi_Name fi) '''')"
| "tar_FileInfoHeader (Directory fi e ds) link =
     Inr (headerOf (Directory fi e ds) TypeDir (fi_Name fi @ ''/'') '''')"
| "tar_FileInfoHeader (Symlink fi) link = Inr (headerOf (Symlink fi) TypeSymlink (fi_Name fi) link)"
| "tar_FileInfoHeader (Special fi) link = Inr (headerOf (Special fi) TypeSpecial (fi_Name fi) '''')"
| "tar_FileInfoHeader (Socket fi) link = Inl (ErrExternal ''archive/tar: sockets not supported'')"

text \<open>
  The libraries: \<open>ignorefile_ReadAll\<close> turns the bytes of an ignore file into patterns,
  \<open>patternmatcher_New\<close> compiles them into the function \<open>MatchesOrParentMatches\<close>,
  \<open>tar_HeaderBytes\<close> is what \<open>tar.Writer.WriteHeader\<close> emits for a header,
  \<open>gzip_Len s\<close> is the length of the output buffer once the bytes \<open>s\<close> have been
  written to the gzip writer, \<open>gzip_Close s\<close> is the buffer after the writer has been
  closed, and \<open>sha256_Sum256\<close> is the digest.
\<close>

record libs =
  ignorefile_ReadAll :: "string \<Rightarrow> error + string list"
  patternmatcher_New :: "string list \<Rightarrow> error + (string \<Rightarrow> error + bool)"
  tar_HeaderBytes :: "Header \<Rightarrow> error + string"
  gzip_Len :: "string \<Rightarrow> nat"
  gzip_Close :: "string \<Rightarrow> string"
  sha256_Sum256 :: "string \<Rightarrow> 256 word"

text \<open>
  The tar writer on top of the context-aware gzip writer: \<open>tw_out\<close> are the bytes handed
  to the gzip writer so far, \<open>tw_pad\<close> the padding owed to the current entry, which the
  next \<open>WriteHeader\<close> or \<open>Close\<close> writes first. Every write checks the context.
\<close>

record tar_Writer =
  tw_out :: string
  tw_pad :: nat

definition blockPadding :: "nat \<Rightarrow> nat" where
  "blockPadding n = (512 - n mod 512) mod 512"

definition zeroBlock :: "nat \<Rightarrow> string" where
  "zeroBlock n = replicate n (CHR 0x00)"

definition tar_Flush :: "error option \<Rightarrow> tar_Writer \<Rightarrow> error + tar_Writer" where
  "tar_Flush ctx_Err tw =
     (case ctx_Err of
        Some e \<Rightarrow> Inl e
      | None \<Rightarrow> Inr \<lparr>tw_out = tw_out tw @ zeroBlock (tw_pad tw), tw_pad = 0\<rparr>)"

definition tar_WriteHeader ::
  "libs \<Rightarrow> error option \<Rightarrow> Header \<Rightarrow> tar_Writer \<Rightarrow> error + tar_Writer" where
  "tar_WriteHeader lib ctx_Err hdr tw =
     (case tar_Flush ctx_Err tw of
        Inl e \<Rightarrow> Inl e
      | Inr tw1 \<Rightarrow>
          (case tar_HeaderBytes lib hdr of
             Inl e \<Rightarrow> Inl e
           | Inr block \<Rightarrow>
               Inr \<lparr>tw_out = tw_out tw1 @ block, tw_pad = blockPadding (hdr_Size hdr)\<rparr>))"

definition tar_Write :: "error option \<Rightarrow> string \<Rightarrow> tar_Writer \<Rightarrow> error + tar_Writer" where
  "tar_Write ctx_Err content tw =
     (if content = [] then Inr tw
      else (case ctx_Err of
              Some e \<Rightarrow> Inl e
            | None \<Rightarrow> Inr (tw\<lparr>tw_out := tw_out tw @ content\<rparr>)))"

definition tar_Close :: "error option \<Rightarrow> tar_Writer \<Rightarrow> error + tar_Writer" where
  "tar_Close ctx_Err tw =
     (case tar_Flush ctx_Err tw of
        Inl e \<Rightarrow> Inl e
      | Inr tw1 \<Rightarrow> Inr (tw1\<lparr>tw_out := tw_out tw1 @ zeroBlock 1024\<rparr>))"

subsection \<open>base64.StdEncoding\<close>




subsection \<open>createTarball\<close>

definition MiB :: nat where
  "MiB = 1024 * 1024"

definition sourceDateEpoch :: int where
  "sourceDateEpoch = 315532800"

definition defaultDockerIgnore :: string where
  "defaultDockerIgnore = joinWith [CHR 0x0A]
     [''# Default .dockerignore file for Defang'',
      ''**/.DS_Store'',
      ''**/.direnv'',
      ''**/.envrc'',
      ''**/.git'',
      ''**/.github'',
      ''**/.idea'',
      ''**/.next'',
      ''**/.vscode'',
      ''**/__pycache__'',
      ''**/compose.yaml'',
      ''**/compose.yml'',
      ''**/defang.exe'',
      ''**/docker-compose.yml'',
      ''**/docker-compose.yaml'',
      ''**/node_modules'',
      ''**/Thumbs.db'',
      ''# Ignore our own binary, but only in the root to avoid ignoring subfolders'',
      ''defang'']"

text \<open>
  \<open>tryReadIgnoreFile\<close>: the reader, or none when the file cannot be opened. A reader is
  the outcome of reading it to the end.
\<close>

definition tryReadIgnoreFile :: "filesystem \<Rightarrow> string \<Rightarrow> string \<Rightarrow> (error + string) option" where
  "tryReadIgnoreFile fs cwd ignorefile =
     (case os_Open fs (filepath_Join cwd ignorefile) of
        Inl err \<Rightarrow> None
      | Inr reader \<Rightarrow> Some reader)"

text \<open>The first lines of \<open>createTarball\<close>: the Dockerfile that is looked for.\<close>

definition declaredDockerfile :: "string \<Rightarrow> string" where
  "declaredDockerfile dockerfile =
     (if dockerfile = '''' then ''Dockerfile'' else filepath_Clean dockerfile)"

text \<open>
  The choice of the ignore file: the name kept in \<open>dockerignore\<close> and the reader.
\<close>

definition resolveIgnoreFile ::
  "filesystem \<Rightarrow> string \<Rightarrow> string \<Rightarrow> string \<times> (error + string)" where
  "resolveIgnoreFile fs root dockerfile =
     (case tryReadIgnoreFile fs root (dockerfile @ ''.dockerignore'') of
        Some reader \<Rightarrow> (dockerfile @ ''.dockerignore'', reader)
      | None \<Rightarrow>
          (case tryReadIgnoreFile fs root ''.dockerignore'' of
             Some reader \<Rightarrow> (''.dockerignore'', reader)
           | None \<Rightarrow> (''.dockerignore'', Inr defaultDockerIgnore)))"

text \<open>The variables the walk function of \<open>createTarball\<close> closes over and updates.\<close>

record tarball =
  foundDockerfile :: bool
  fileCount :: nat
  tarWriter :: tar_Writer

definition emptyTarball :: tarball where
  "emptyTarball =
     \<lparr>foundDockerfile = False, fileCount = 0, tarWriter = \<lparr>tw_out = [], tw_pad = 0\<rparr>\<rparr>"

text \<open>
  The part of the walk function from \<open>de.Info()\<close> on: write the header and, for a
  regular file, its content, then compare the buffer with the ceiling.
\<close>

definition addEntry ::
  "libs \<Rightarrow> error option \<Rightarrow> string \<Rightarrow> node \<Rightarrow> tarball \<Rightarrow> error option \<times> tarball" where
  "addEntry lib ctx_Err baseName de st =
     (case tar_FileInfoHeader de (Name de) of
        Inl err \<Rightarrow> (Some err, st)
      | Inr header0 \<Rightarrow>
          (let header = header0\<lparr>hdr_ModTime := sourceDateEpoch, hdr_Gid := 0, hdr_Uid := 0,
                                hdr_Name := baseName\<rparr>
           in case tar_WriteHeader lib ctx_Err header (tarWriter st) of
                Inl err \<Rightarrow> (Some err, st)
              | Inr tw1 \<Rightarrow>
                  (case de of
                     Regular fi file \<Rightarrow>
                       (case file of
                          Inl err \<Rightarrow> (Some err, st\<lparr>tarWriter := tw1\<rparr>)
                        | Inr content \<Rightarrow>
                            (case tar_Write ctx_Err content tw1 of
                               Inl err \<Rightarrow>
                                 (if gzip_Len lib (tw_out tw1) > 10 * MiB
                                  then (Some ErrTooLarge,
                                        st\<lparr>fileCount := fileCount st + 1, tarWriter := tw1\<rparr>)
                                  else (Some err,
                                        st\<lparr>fileCount := fileCount st + 1, tarWriter := tw1\<rparr>))
                             | Inr tw2 \<Rightarrow>
                                 (if gzip_Len lib (tw_out tw2) > 10 * MiB
                                  then (Some ErrTooLarge,
                                        st\<lparr>fileCount := fileCount st + 1, tarWriter := tw2\<rparr>)
                                  else (None,
                                        st\<lparr>fileCount := fileCount st + 1, tarWriter := tw2\<rparr>))))
                   | _ \<Rightarrow> (None, st\<lparr>tarWriter := tw1\<rparr>))))"

text \<open>The function \<open>createTarball\<close> hands to \<open>WalkDir\<close>.\<close>

definition returning :: "error option \<times> 's \<Rightarrow> walk_error option \<times> 's" where
  "returning r = (map_option Err (fst r), snd r)"

definition walkFn ::
  "libs \<Rightarrow> error option \<Rightarrow> string \<Rightarrow> string \<Rightarrow> (string \<Rightarrow> error + bool) \<Rightarrow>
   tarball WalkDirFunc" where
  "walkFn lib ctx_Err dockerfile dockerignore pm path entry err st =
     (case err of
        Some e \<Rightarrow> (Some (Err e), st)
      | None \<Rightarrow>
          (if path = [] then (None, st)
           else
             (case entry of
                None \<Rightarrow> (Some (Err (ErrExternal ''no directory entry'')), st)
              | Some de \<Rightarrow>
                  (let relPath = joinWith [Separator] path;
                       baseName = filepath_ToSlash relPath
                   in if \<not> foundDockerfile st \<and> relPath = dockerfile then
                        returning (addEntry lib ctx_Err baseName de (st\<lparr>foundDockerfile := True\<rparr>))
                      else if relPath = dockerignore then
                        returning (addEntry lib ctx_Err baseName de st)
                      else
                        (case pm baseName of
                           Inl e \<Rightarrow> (Some (Err e), st)
                         | Inr ignore \<Rightarrow>
                             (if ignore then
                                (if IsDir de then (Some SkipDir, st) else (None, st))
                              else returning (addEntry lib ctx_Err baseName de st)))))))"

text \<open>Lines 315 to 323: the patterns are read from the reader and compiled.\<close>

definition compileIgnoreFile ::
  "libs \<Rightarrow> error + string \<Rightarrow> error + (string \<Rightarrow> error + bool)" where
  "compileIgnoreFile lib reader =
     (case (case reader of Inl e \<Rightarrow> Inl e | Inr text \<Rightarrow> ignorefile_ReadAll lib text) of
        Inl err \<Rightarrow> Inl err
      | Inr patterns \<Rightarrow> patternmatcher_New lib patterns)"

definition createTarball ::
  "libs \<Rightarrow> filesystem \<Rightarrow> error option \<Rightarrow> string \<Rightarrow> string \<Rightarrow> error + string" where
  "createTarball lib fs ctx_Err root dockerfile0 =
     (let dockerfile = declaredDockerfile dockerfile0;
          (dockerignore, reader) = resolveIgnoreFile fs root dockerfile
      in case compileIgnoreFile lib reader of
           Inl err \<Rightarrow> Inl err
         | Inr pm \<Rightarrow>
             (case WalkDir fs root (walkFn lib ctx_Err dockerfile dockerignore pm)
                     emptyTarball of
                (Some err, st) \<Rightarrow> Inl err
              | (None, st) \<Rightarrow>
                  (case tar_Close ctx_Err (tarWriter st) of
                     Inl err \<Rightarrow> Inl err
                   | Inr tw \<Rightarrow>
                       (if \<not> foundDockerfile st then Inl (ErrDockerfile dockerfile)
                        else Inr (gzip_Close lib (tw_out tw))))))"

subsection \<open>getRemoteBuildContext\<close>





subsection \<open>Vocabulary for the statements about ports and names\<close>

definition protocolNames :: "(string \<times> Protocol) list" where
  "protocolNames =
     [('''', Protocol_ANY), (''tcp'', Protocol_TCP), (''udp'', Protocol_UDP),
      (''http'', Protocol_HTTP), (''http2'', Protocol_HTTP2), (''grpc'', Protocol_GRPC)]"

definition targetInRange :: "ServicePortConfig \<Rightarrow> bool" where
  "targetInRange p = (1 \<le> cfg_Target p \<and> cfg_Target p \<le> 32767)"

definition publishedOk :: "ServicePortConfig \<Rightarrow> bool" where
  "publishedOk p =
     (cfg_Published p = '''' \<or> cfg_Published p = FormatUint (unat (cfg_Target p)))"

definition noWarnings :: globals where
  "noWarnings = \<lparr>HadWarnings = False, Warnings = []\<rparr>"

text \<open>Inputs of TestConvertPort and one that breaks every check at once.\<close>

definition tcpIngressPublished :: ServicePortConfig where
  "tcpIngressPublished =
     \<lparr>cfg_Mode = ''ingress'', cfg_HostIP = '''', cfg_Target = 1234,
      cfg_Published = ''1234'', cfg_Protocol = ''tcp''\<rparr>"

definition allWrong :: ServicePortConfig where
  "allWrong =
     \<lparr>cfg_Mode = ''bridge'', cfg_HostIP = ''127.0.0.1'', cfg_Target = 0,
      cfg_Published = ''1111-2222'', cfg_Protocol = ''sctp''\<rparr>"

text \<open>
  A string is collapsed when it consists of alphanumerics and single hyphens: no byte
  outside the class other than the hyphen, and no two such bytes next to each other.
\<close>

fun collapsed :: "string \<Rightarrow> bool" where
  "collapsed [] = True"
| "collapsed [c] = (isAlnum c \<or> c = CHR ''-'')"
| "collapsed (c # d # cs) =
     ((isAlnum c \<or> (c = CHR ''-'' \<and> isAlnum d)) \<and> collapsed (d # cs))"

text \<open>
  The normalisation as the specification words it: lowercase, then replace every run of
  one or more non-alphanumeric characters with a single hyphen. \<open>runsOf\<close> cuts a string
  into its maximal runs of alphanumerics and of other bytes, \<open>hyphenRun\<close> keeps a run of
  alphanumerics and turns any other run into one hyphen, and \<open>spec_normalize\<close> puts the
  results together.
\<close>

fun runsOf :: "string \<Rightarrow> string list" where
  "runsOf [] = []"
| "runsOf (c # cs) =
     (case runsOf cs of
        [] \<Rightarrow> [[c]]
      | r # rs \<Rightarrow> if isAlnum c = isAlnum (hd r) then (c # r) # rs else [c] # r # rs)"

definition hyphenRun :: "string \<Rightarrow> string" where
  "hyphenRun r = (if isAlnum (hd r) then r else ''-'')"

definition spec_normalize :: "(string \<Rightarrow> string) \<Rightarrow> string \<Rightarrow> string" where
  "spec_normalize unicodeLower s = concat (map hyphenRun (runsOf (strings_ToLower unicodeLower s)))"

text \<open>
  A name that is not ASCII: \<open>Caf\<close>, a capital E with an acute accent in UTF-8 (the bytes
  C3 89) and an exclamation mark; and a lowering that knows this one letter (its small
  form is C3 A9).
\<close>

definition latinLower :: "string \<Rightarrow> string" where
  "latinLower = map (\<lambda>c. if c = CHR 0x89 then CHR 0xA9 else asciiLower c)"

definition upperCafe :: string where
  "upperCafe = [CHR ''C'', CHR ''a'', CHR ''f'', CHR 0xC3, CHR 0x89, CHR ''!'']"
subsection \<open>Vocabulary for the statements about the packager\<close>

text \<open>
  The relative path of an entry, as the walk function computes it and as it is written
  into the header.
\<close>

definition relPathOf :: "string list \<Rightarrow> string" where
  "relPathOf path = joinWith [Separator] path"

text \<open>
  The walk function includes an entry when it is the declared Dockerfile or the ignore
  file, or when the matcher does not report a match.
\<close>

definition included :: "string \<Rightarrow> string \<Rightarrow> (string \<Rightarrow> error + bool) \<Rightarrow> string \<Rightarrow> bool" where
  "included dockerfile dockerignore pm relPath =
     (relPath = dockerfile \<or> relPath = dockerignore \<or>
      pm (filepath_ToSlash relPath) \<noteq> Inr True)"

text \<open>
  The entries of the archive as the specification describes them: the tree below the
  root in the order of the walk, without the entries that are not included and without
  anything below a directory that is not included.
\<close>

fun selected :: "(string \<Rightarrow> bool) \<Rightarrow> string list \<Rightarrow> node \<Rightarrow> (string list \<times> node) list"
  and selectedIn :: "(string \<Rightarrow> bool) \<Rightarrow> string list \<Rightarrow> node list \<Rightarrow> (string list \<times> node) list"
where
  "selected keep path (Directory fi rderr dirs) =
     (if keep (relPathOf path)
      then (path, Directory fi rderr dirs) # selectedIn keep path dirs else [])"
| "selected keep path (Regular fi c) =
     (if keep (relPathOf path) then [(path, Regular fi c)] else [])"
| "selected keep path (Symlink fi) =
     (if keep (relPathOf path) then [(path, Symlink fi)] else [])"
| "selected keep path (Special fi) =
     (if keep (relPathOf path) then [(path, Special fi)] else [])"
| "selected keep path (Socket fi) =
     (if keep (relPathOf path) then [(path, Socket fi)] else [])"
| "selectedIn keep path [] = []"
| "selectedIn keep path (d # ds) =
     selected keep (path @ [Name d]) d @ selectedIn keep path ds"

text \<open>The entries below the root of a tree.\<close>

fun children :: "node \<Rightarrow> node list" where
  "children (Directory fi rderr dirs) = dirs"
| "children d = []"

text \<open>The header and the content the walk function writes for an included entry.\<close>

definition entryHeader :: "string list \<Rightarrow> node \<Rightarrow> Header" where
  "entryHeader path d =
     \<lparr>hdr_Typeflag =
        (case d of Regular fi c \<Rightarrow> TypeReg | Directory fi e ds \<Rightarrow> TypeDir
                 | Symlink fi \<Rightarrow> TypeSymlink | _ \<Rightarrow> TypeSpecial),
      hdr_Name = filepath_ToSlash (relPathOf path),
      hdr_Linkname = (case d of Symlink fi \<Rightarrow> fi_Name fi | _ \<Rightarrow> ''''),
      hdr_Size = Size d,
      hdr_Mode = fi_Perm (Info d),
      hdr_Uid = 0,
      hdr_Gid = 0,
      hdr_Uname = fi_Uname (Info d),
      hdr_Gname = fi_Gname (Info d),
      hdr_ModTime = sourceDateEpoch\<rparr>"

fun entryContent :: "node \<Rightarrow> string" where
  "entryContent (Regular fi (Inr content)) = content"
| "entryContent d = []"

definition archiveEntry :: "string list \<times> node \<Rightarrow> Header \<times> string" where
  "archiveEntry e = (entryHeader (fst e) (snd e), entryContent (snd e))"

text \<open>
  The tar stream of a list of entries: for each one the header block, the content and the
  padding to a multiple of 512 bytes; at the end two blocks of zeros.
\<close>

definition headerBlock :: "libs \<Rightarrow> Header \<Rightarrow> string" where
  "headerBlock lib h = (case tar_HeaderBytes lib h of Inl e \<Rightarrow> [] | Inr block \<Rightarrow> block)"

fun tarEntries :: "libs \<Rightarrow> (Header \<times> string) list \<Rightarrow> string" where
  "tarEntries lib [] = []"
| "tarEntries lib ((h, content) # es) =
     headerBlock lib h @ content @ zeroBlock (blockPadding (length content)) @ tarEntries lib es"

definition tarStream :: "libs \<Rightarrow> (Header \<times> string) list \<Rightarrow> string" where
  "tarStream lib es = tarEntries lib es @ zeroBlock 1024"

text \<open>
  The bytes the tar writer has produced once the padding it owes is written.
\<close>

definition flushed :: "tar_Writer \<Rightarrow> string" where
  "flushed tw = tw_out tw @ zeroBlock (tw_pad tw)"

text \<open>
  \<open>wrote lib df st st' sel\<close>: the state \<open>st'\<close> is \<open>st\<close> after the entries \<open>sel\<close>
  have been written, and the Dockerfile has been found if it had been before or is one
  of them. \<open>everything\<close> lists a tree without leaving anything out.
\<close>

definition wrote :: "libs \<Rightarrow> string \<Rightarrow> tarball \<Rightarrow> tarball \<Rightarrow> (string list \<times> node) list \<Rightarrow> bool" where
  "wrote lib df st st' sel =
     (flushed (tarWriter st') = flushed (tarWriter st) @ tarEntries lib (map archiveEntry sel) \<and>
      foundDockerfile st' = (foundDockerfile st \<or> df \<in> set (map (relPathOf \<circ> fst) sel)))"

definition everything :: "string list \<Rightarrow> node \<Rightarrow> (string list \<times> node) list" where
  "everything path d = selected (\<lambda>r. True) path d"

definition everythingIn :: "string list \<Rightarrow> node list \<Rightarrow> (string list \<times> node) list" where
  "everythingIn path ds = selectedIn (\<lambda>r. True) path ds"

abbreviation rels :: "(string list \<times> node) list \<Rightarrow> string list" where
  "rels sel \<equiv> map (relPathOf \<circ> fst) sel"

text \<open>
  A tree as a file system holds it: file names are not empty and have no separator in
  them, and the entries of a directory are in strictly increasing order of their names
  (the order of \<open>os.ReadDir\<close>; no name occurs twice).
\<close>

definition validName :: "string \<Rightarrow> bool" where
  "validName n = (n \<noteq> [] \<and> Separator \<notin> set n)"

fun wellFormed :: "node \<Rightarrow> bool"
  and wellFormedIn :: "node list \<Rightarrow> bool"
where
  "wellFormed (Directory fi rderr dirs) = (sorted_wrt (<) (map Name dirs) \<and> wellFormedIn dirs)"
| "wellFormed (Regular fi c) = True"
| "wellFormed (Symlink fi) = True"
| "wellFormed (Special fi) = True"
| "wellFormed (Socket fi) = True"
| "wellFormedIn [] = True"
| "wellFormedIn (d # ds) = (validName (Name d) \<and> wellFormed d \<and> wellFormedIn ds)"

text \<open>
  Paths compared element by element, each element as a byte string: the order in which
  a walk that sorts every directory by name meets them.
\<close>

definition pathLess :: "string list \<Rightarrow> string list \<Rightarrow> bool" where
  "pathLess p q = (p < q)"

text \<open>
  An instance of the library interface for running the model on examples: ignore files
  are lists of literal names (\<open>#\<close> starts a comment, \<open>**/name\<close> matches \<open>name\<close> at any
  depth), a header is one 512-byte block that starts with the name, and the gzip writer
  copies its input.
\<close>

definition plainMatch :: "string list \<Rightarrow> string \<Rightarrow> bool" where
  "plainMatch patterns path =
     (let elems = splitOn CHR ''/'' path
      in list_ex (\<lambda>k. joinWith ''/'' (take k elems) \<in> set patterns) [1..<Suc (length elems)] \<or>
         list_ex (\<lambda>e. (''**/'' @ e) \<in> set patterns) elems)"

definition plainLibs :: libs where
  "plainLibs =
     \<lparr>ignorefile_ReadAll =
        (\<lambda>text. Inr (filter (\<lambda>l. l \<noteq> [] \<and> hd l \<noteq> CHR ''#'') (splitOn (CHR 0x0A) text))),
      patternmatcher_New = (\<lambda>patterns. Inr (\<lambda>path. Inr (plainMatch patterns path))),
      tar_HeaderBytes = (\<lambda>h. Inr (take 512 (hdr_Name h @ zeroBlock 512))),
      gzip_Len = length,
      gzip_Close = (\<lambda>s. s),
      sha256_Sum256 = (\<lambda>s. 0)\<rparr>"

text \<open>
  The directory of TestCreateTarballReader with one more, ignored, file: an ignore file, a
  Dockerfile, \<open>fileName.env\<close> and \<open>ignored.txt\<close>.
\<close>

definition fileInfo :: "string \<Rightarrow> FileInfo" where
  "fileInfo n =
     \<lparr>fi_Name = n, fi_Perm = 420, fi_ModTime = 1700000000, fi_Uid = 1000, fi_Gid = 1000,
      fi_Uname = ''dev'', fi_Gname = ''dev''\<rparr>"

definition testproj :: node where
  "testproj = Directory (fileInfo ''testproj'') None
     [Regular (fileInfo ''.dockerignore'') (Inr ''ignored.txt''),
      Regular (fileInfo ''Dockerfile'') (Inr ''FROM scratch''),
      Regular (fileInfo ''fileName.env'') (Inr ''A=1''),
      Regular (fileInfo ''ignored.txt'') (Inr ''secret'')]"

definition noFile :: error where
  "noFile = ErrExternal ''no such file or directory''"

definition testFS :: filesystem where
  "testFS =
     \<lparr>os_Lstat = (\<lambda>p. if p = ''testproj'' then Inr testproj else Inl noFile),
      os_Open = (\<lambda>p. if p = ''testproj/.dockerignore'' then Inr (Inr ''ignored.txt'')
                      else Inl noFile),
      os_Getwd = Inr ''/work''\<rparr>"

text \<open>
  The matcher the ignore file of the example compiles to, the entries that are expected
  in the archive, and the archive.
\<close>

definition testMatcher :: "string \<Rightarrow> error + bool" where
  "testMatcher = (\<lambda>path. Inr (plainMatch [''ignored.txt''] path))"

definition testEntries :: "(string list \<times> node) list" where
  "testEntries =
     [([''.dockerignore''], Regular (fileInfo ''.dockerignore'') (Inr ''ignored.txt'')),
      ([''Dockerfile''], Regular (fileInfo ''Dockerfile'') (Inr ''FROM scratch'')),
      ([''fileName.env''], Regular (fileInfo ''fileName.env'') (Inr ''A=1''))]"

definition testArchive :: string where
  "testArchive = gzip_Close plainLibs (tarStream plainLibs (map archiveEntry testEntries))"

text \<open>
  A second instance of the library interface, with a header block that carries the
  fields \<open>tar.Writer\<close> writes as text at their places in the ustar layout: the name in
  bytes 0 to 99, the name of the owner in bytes 265 to 296 and the name of the group in
  bytes 297 to 328, each padded with zeros. The numeric fields are left zero. In the
  place of SHA-256 stands a checksum that every byte of its input goes into, the sum of
  the bytes.
\<close>

definition byteSum :: "string \<Rightarrow> nat" where
  "byteSum s = sum_list (map of_char s)"

definition ustarField :: "nat \<Rightarrow> string \<Rightarrow> string" where
  "ustarField n s = take n (s @ zeroBlock n)"

definition ustarLibs :: libs where
  "ustarLibs = plainLibs\<lparr>tar_HeaderBytes :=
     (\<lambda>h. Inr (ustarField 100 (hdr_Name h) @ zeroBlock 165 @
               ustarField 32 (hdr_Uname h) @ ustarField 32 (hdr_Gname h) @ zeroBlock 183)),
     sha256_Sum256 := (\<lambda>s. of_nat (byteSum s))\<rparr>"

text \<open>
  \<open>chown -R\<close>: the same tree with another owner and group. \<open>testprojRoot\<close> is the
  example directory once it belongs to root: names, modes, times and contents are those
  of \<open>testproj\<close>; \<open>testEntriesRoot\<close> are the entries expected in its archive.
\<close>

definition chownInfo :: "nat \<Rightarrow> string \<Rightarrow> nat \<Rightarrow> string \<Rightarrow> FileInfo \<Rightarrow> FileInfo" where
  "chownInfo uid uname gid gname fi =
     fi\<lparr>fi_Uid := uid, fi_Gid := gid, fi_Uname := uname, fi_Gname := gname\<rparr>"

fun chown :: "nat \<Rightarrow> string \<Rightarrow> nat \<Rightarrow> string \<Rightarrow> node \<Rightarrow> node" where
  "chown uid uname gid gname (Regular fi c) = Regular (chownInfo uid uname gid gname fi) c"
| "chown uid uname gid gname (Directory fi rderr dirs) =
     Directory (chownInfo uid uname gid gname fi) rderr (map (chown uid uname gid gname) dirs)"
| "chown uid uname gid gname (Symlink fi) = Symlink (chownInfo uid uname gid gname fi)"
| "chown uid uname gid gname (Special fi) = Special (chownInfo uid uname gid gname fi)"
| "chown uid uname gid gname (Socket fi) = Socket (chownInfo uid uname gid gname fi)"

definition testprojRoot :: node where
  "testprojRoot = chown 0 ''root'' 0 ''root'' testproj"

definition testEntriesRoot :: "(string list \<times> node) list" where
  "testEntriesRoot = map (\<lambda>e. (fst e, chown 0 ''root'' 0 ''root'' (snd e))) testEntries"

definition testFSRoot :: filesystem where
  "testFSRoot = testFS\<lparr>os_Lstat := (\<lambda>p. if p = ''testproj'' then Inr testprojRoot else Inl noFile)\<rparr>"

text \<open>
  File systems that hold the example directory and differ in the ignore files that can
  be opened: both \<open>Dockerfile.dockerignore\<close> (which ignores \<open>fileName.env\<close>) and
  \<open>.dockerignore\<close>; \<open>Dockerfile.dockerignore\<close> alone; and none. \<open>specificMatcher\<close>
  and \<open>specificEntries\<close> are the matcher of \<open>Dockerfile.dockerignore\<close> and the entries
  it lets through.
\<close>

definition bothFS :: filesystem where
  "bothFS = testFS\<lparr>os_Open :=
     (\<lambda>p. if p = ''testproj/Dockerfile.dockerignore'' then Inr (Inr ''fileName.env'')
           else if p = ''testproj/.dockerignore'' then Inr (Inr ''ignored.txt'')
           else Inl noFile)\<rparr>"

definition specificFS :: filesystem where
  "specificFS = testFS\<lparr>os_Open :=
     (\<lambda>p. if p = ''testproj/Dockerfile.dockerignore'' then Inr (Inr ''fileName.env'')
           else Inl noFile)\<rparr>"

definition noneFS :: filesystem where
  "noneFS = testFS\<lparr>os_Open := (\<lambda>p. Inl noFile)\<rparr>"

definition specificMatcher :: "string \<Rightarrow> error + bool" where
  "specificMatcher = (\<lambda>path. Inr (plainMatch [''fileName.env''] path))"

definition specificEntries :: "(string list \<times> node) list" where
  "specificEntries =
     [([''.dockerignore''], Regular (fileInfo ''.dockerignore'') (Inr ''ignored.txt'')),
      ([''Dockerfile''], Regular (fileInfo ''Dockerfile'') (Inr ''FROM scratch'')),
      ([''ignored.txt''], Regular (fileInfo ''ignored.txt'') (Inr ''secret''))]"

text \<open>A directory whose \<open>.dockerignore\<close> can be opened but not read.\<close>

definition readError :: error where
  "readError = ErrExternal ''read testproj/.dockerignore: input/output error''"

definition unreadableFS :: filesystem where
  "unreadableFS =
     \<lparr>os_Lstat = (\<lambda>p. if p = ''testproj''
         then Inr (Directory (fileInfo ''testproj'') None
                [Regular (fileInfo ''.dockerignore'') (Inl readError),
                 Regular (fileInfo ''Dockerfile'') (Inr ''FROM scratch'')])
         else Inl noFile),
      os_Open = (\<lambda>p. if p = ''testproj/.dockerignore'' then Inr (Inl readError) else Inl noFile),
      os_Getwd = Inr ''/work''\<rparr>"

text \<open>
  A directory without a Dockerfile and without an ignore file, the matcher the default
  patterns compile to, and a matcher that matches every path.
\<close>

definition bareproj :: node where
  "bareproj = Directory (fileInfo ''bareproj'') None
     [Regular (fileInfo ''README'') (Inr ''hello'')]"

definition bareFS :: filesystem where
  "bareFS =
     \<lparr>os_Lstat = (\<lambda>p. if p = ''bareproj'' then Inr bareproj else Inl noFile),
      os_Open = (\<lambda>p. Inl noFile),
      os_Getwd = Inr ''/work''\<rparr>"

definition defaultMatcher :: "string \<Rightarrow> error + bool" where
  "defaultMatcher =
     (\<lambda>path. Inr (plainMatch
        (filter (\<lambda>l. l \<noteq> [] \<and> hd l \<noteq> CHR ''#'') (splitOn (CHR 0x0A) defaultDockerIgnore)) path))"

definition matchAll :: "string \<Rightarrow> error + bool" where
  "matchAll = (\<lambda>path. Inr True)"



section \<open>Properties of the service-name and port conversion\<close>

subsection \<open>Service names\<close>

lemma dropWhile_head: "dropWhile P xs = y # ys \<Longrightarrow> \<not> P y"
  by (induction xs) (auto split: if_splits)

lemma collapsed_replace: "collapsed (replaceNonAlphanumeric s)"
proof (induction s rule: replaceNonAlphanumeric.induct)
  case 1
  show ?case by simp
next
  case (2 c cs)
  show ?case
  proof (cases "isAlnum c")
    case True
    with 2 show ?thesis
      by (cases "replaceNonAlphanumeric cs") auto
  next
    case False
    then have eq: "replaceNonAlphanumeric (c # cs) =
        CHR ''-'' # replaceNonAlphanumeric (dropWhile (\<lambda>d. \<not> isAlnum d) cs)"
      by simp
    show ?thesis
    proof (cases "dropWhile (\<lambda>d. \<not> isAlnum d) cs")
      case Nil
      show ?thesis unfolding eq Nil by simp
    next
      case (Cons y ys)
      then have y: "isAlnum y"
        using dropWhile_head[of "\<lambda>d. \<not> isAlnum d" cs y ys] by simp
      have "collapsed (replaceNonAlphanumeric (y # ys))"
        using 2(2)[OF False] Cons by simp
      with y show ?thesis unfolding eq Cons by simp
    qed
  qed
qed

lemma hyphen_not_alnum: "\<not> isAlnum CHR ''-''"
  by (simp add: isAlnum_def)

lemma replace_collapsed: "collapsed t \<Longrightarrow> replaceNonAlphanumeric t = t"
  by (induction t rule: collapsed.induct) (auto simp: hyphen_not_alnum)

lemma set_replace:
  "set (replaceNonAlphanumeric s) \<subseteq> insert CHR ''-'' {c \<in> set s. isAlnum c}"
proof (induction s rule: replaceNonAlphanumeric.induct)
  case 1
  show ?case by simp
next
  case (2 c cs)
  show ?case
  proof (cases "isAlnum c")
    case True
    with 2 show ?thesis by auto
  next
    case False
    have "set (dropWhile (\<lambda>d. \<not> isAlnum d) cs) \<subseteq> set cs"
      by (rule set_dropWhileD[THEN subsetI])
    with False 2 show ?thesis by auto
  qed
qed

lemma replace_run:
  assumes "r \<noteq> []" "\<forall>d\<in>set r. \<not> isAlnum d" "rest = [] \<or> isAlnum (hd rest)"
  shows "replaceNonAlphanumeric (r @ rest) = CHR ''-'' # replaceNonAlphanumeric rest"
proof -
  obtain c cs where r: "r = c # cs" using assms(1) by (cases r) auto
  have "dropWhile (\<lambda>d. \<not> isAlnum d) (cs @ rest) = rest"
    using assms(2,3) unfolding r by (cases rest) (auto simp: dropWhile_append)
  then show ?thesis using assms(2) unfolding r by simp
qed

lemma of_char_lt: "(of_char c :: nat) < 256"
  by (cases c) simp

lemma asciiLower_not_upper: "\<not> isUpper (asciiLower c)"
  by (auto simp: asciiLower_def isUpper_def of_char_lt)

lemma asciiLower_id: "\<not> isUpper c \<Longrightarrow> asciiLower c = c"
  by (simp add: asciiLower_def)

lemma alnum_ascii: "isAlnum c \<Longrightarrow> isASCII c"
  by (auto simp: isAlnum_def isASCII_def)

lemma hyphen_props: "isASCII CHR ''-''" "\<not> isUpper CHR ''-''"
  by (simp_all add: isASCII_def isUpper_def)

lemma ToLower_ascii_fix:
  assumes "\<forall>c\<in>set t. isASCII c \<and> \<not> isUpper c"
  shows "strings_ToLower u t = t"
proof -
  have "list_all isASCII t" using assms by (simp add: list_all_iff)
  moreover have "map asciiLower t = t" using assms by (simp add: map_idI asciiLower_id)
  ultimately show ?thesis by (simp add: strings_ToLower_def)
qed

lemma ToLower_no_upper:
  assumes "\<not> list_all isASCII s \<longrightarrow> (\<forall>c\<in>set (u s). \<not> isUpper c)"
  shows "\<forall>c\<in>set (strings_ToLower u s). \<not> isUpper c"
  using assms by (auto simp: strings_ToLower_def asciiLower_not_upper)

lemma Normalize_chars:
  assumes "\<not> list_all isASCII s \<longrightarrow> (\<forall>c\<in>set (u s). \<not> isUpper c)"
  shows "\<forall>c\<in>set (NormalizeServiceName u s). isASCII c \<and> \<not> isUpper c"
proof
  fix c assume "c \<in> set (NormalizeServiceName u s)"
  then have "c = CHR ''-'' \<or> (c \<in> set (strings_ToLower u s) \<and> isAlnum c)"
    using set_replace[of "strings_ToLower u s"] by (auto simp: NormalizeServiceName_def)
  then show "isASCII c \<and> \<not> isUpper c"
    using ToLower_no_upper[of s u] assms by (auto simp: hyphen_props alnum_ascii)
qed

lemma runsOf_Cons: "\<exists>r rs. runsOf (d # ds) = r # rs \<and> r \<noteq> [] \<and> hd r = d"
  by (cases "runsOf ds") auto

lemma hyphenRun_simps:
  "isAlnum (hd r) \<Longrightarrow> hyphenRun r = r"
  "\<not> isAlnum (hd r) \<Longrightarrow> hyphenRun r = ''-''"
  by (simp_all add: hyphenRun_def)

lemma replace_runs: "replaceNonAlphanumeric s = concat (map hyphenRun (runsOf s))"
proof (induction s)
  case Nil
  show ?case by simp
next
  case (Cons c cs)
  show ?case
  proof (cases cs)
    case Nil
    then show ?thesis by (simp add: hyphenRun_def)
  next
    case cs: (Cons d ds)
    obtain r rs where r: "runsOf cs = r # rs" and hd: "hd r = d"
      using runsOf_Cons[of d ds] cs by blast
    have ih: "replaceNonAlphanumeric cs = hyphenRun r @ concat (map hyphenRun rs)"
      using Cons.IH by (simp add: r)
    have runs: "runsOf (c # cs) = (if isAlnum c = isAlnum d then (c # r) # rs else [c] # r # rs)"
      by (simp add: r hd)
    show ?thesis
    proof (cases "isAlnum c")
      case True
      then have "replaceNonAlphanumeric (c # cs) = c # replaceNonAlphanumeric cs"
        by simp
      also have "\<dots> = concat (map hyphenRun (runsOf (c # cs)))"
        using True hd by (cases "isAlnum d") (simp_all add: ih runs hyphenRun_simps del: runsOf.simps)
      finally show ?thesis .
    next
      case False
      show ?thesis
      proof (cases "isAlnum d")
        case True
        with False have "replaceNonAlphanumeric (c # cs) = CHR ''-'' # replaceNonAlphanumeric cs"
          unfolding cs by simp
        also have "\<dots> = concat (map hyphenRun (runsOf (c # cs)))"
          using True False hd by (simp add: ih runs hyphenRun_simps del: runsOf.simps)
        finally show ?thesis .
      next
        case d: False
        with False have "replaceNonAlphanumeric (c # cs) = replaceNonAlphanumeric cs"
          unfolding cs by simp
        also have "\<dots> = concat (map hyphenRun (runsOf (c # cs)))"
          using d False hd by (simp add: ih runs hyphenRun_simps del: runsOf.simps)
        finally show ?thesis .
      qed
    qed
  qed
qed

lemma replace_alnum: "list_all isAlnum a \<Longrightarrow> replaceNonAlphanumeric a = a"
  by (induction a) auto

lemma replace_split:
  "a = [] \<or> isAlnum (last a) \<Longrightarrow>
   replaceNonAlphanumeric (a @ t) = replaceNonAlphanumeric a @ replaceNonAlphanumeric t"
proof (induction a rule: replaceNonAlphanumeric.induct)
  case 1
  show ?case by simp
next
  case (2 c cs)
  let ?P = "\<lambda>d. \<not> isAlnum d"
  show ?case
  proof (cases "isAlnum c")
    case True
    have "cs = [] \<or> isAlnum (last cs)"
      using 2(3) by (cases cs) auto
    from 2(1)[OF True this] True show ?thesis by simp
  next
    case False
    with 2(3) have ne: "cs \<noteq> []" and l: "isAlnum (last cs)"
      by (auto split: if_splits)
    have mem: "last cs \<in> set cs" using ne by simp
    have app: "dropWhile ?P (cs @ t) = dropWhile ?P cs @ t"
      using dropWhile_append1[of "last cs" cs ?P t] mem l by simp
    have dne: "dropWhile ?P cs \<noteq> []"
      using mem l by (auto simp: dropWhile_eq_Nil_conv)
    have "last (takeWhile ?P cs @ dropWhile ?P cs) = last (dropWhile ?P cs)"
      using dne by (rule last_appendR)
    then have "isAlnum (last (dropWhile ?P cs))"
      using l by simp
    then have "replaceNonAlphanumeric (dropWhile ?P cs @ t) =
        replaceNonAlphanumeric (dropWhile ?P cs) @ replaceNonAlphanumeric t"
      using 2(2)[OF False] by blast
    with False app show ?thesis by simp
  qed
qed

lemma alnum_lower: "isAlnum (asciiLower c) = isAlnum c"
  by (auto simp: asciiLower_def isUpper_def isAlnum_def)

lemma Normalize_ascii:
  "list_all isASCII s \<Longrightarrow> NormalizeServiceName u s = replaceNonAlphanumeric (map asciiLower s)"
  by (simp add: NormalizeServiceName_def strings_ToLower_def)

lemma Normalize_alnum:
  assumes "list_all isAlnum s"
  shows "NormalizeServiceName u s = map asciiLower s"
proof -
  have "list_all isASCII s"
    using assms by (auto simp: list_all_iff alnum_ascii)
  moreover have "list_all isAlnum (map asciiLower s)"
    using assms by (simp add: list_all_iff alnum_lower)
  ultimately show ?thesis
    by (simp add: Normalize_ascii replace_alnum)
qed

lemma Normalize_run:
  assumes ascii: "list_all isASCII (a @ r @ b)"
    and r: "r \<noteq> []" "\<forall>d\<in>set r. \<not> isAlnum d"
    and a: "a = [] \<or> isAlnum (last a)"
    and b: "b = [] \<or> isAlnum (hd b)"
  shows "NormalizeServiceName u (a @ r @ b) =
         NormalizeServiceName u a @ CHR ''-'' # NormalizeServiceName u b"
proof -
  let ?L = "map asciiLower"
  have a': "?L a = [] \<or> isAlnum (last (?L a))"
    using a by (cases "a = []") (simp_all add: last_map alnum_lower)
  have b': "?L b = [] \<or> isAlnum (hd (?L b))"
    using b by (cases "b = []") (simp_all add: hd_map alnum_lower)
  have r': "?L r \<noteq> []" "\<forall>d\<in>set (?L r). \<not> isAlnum d"
    using r by (auto simp: alnum_lower)
  have "replaceNonAlphanumeric (?L a @ ?L r @ ?L b) =
        replaceNonAlphanumeric (?L a) @ replaceNonAlphanumeric (?L r @ ?L b)"
    by (rule replace_split[OF a'])
  also have "replaceNonAlphanumeric (?L r @ ?L b) = CHR ''-'' # replaceNonAlphanumeric (?L b)"
    by (rule replace_run[OF r' b'])
  finally show ?thesis
    using ascii by (simp add: Normalize_ascii)
qed

lemma lowered_run:
  assumes t: "strings_ToLower u s = a @ r @ b"
    and r: "r \<noteq> []" "\<forall>d\<in>set r. \<not> isAlnum d"
    and a: "a = [] \<or> isAlnum (last a)"
    and b: "b = [] \<or> isAlnum (hd b)"
  shows "NormalizeServiceName u s =
         replaceNonAlphanumeric a @ CHR ''-'' # replaceNonAlphanumeric b"
  unfolding NormalizeServiceName_def t
  using replace_split[OF a, of "r @ b"] replace_run[OF r b] by simp

lemma cafe: "NormalizeServiceName latinLower upperCafe = ''caf-''"
  "\<not> list_all isASCII upperCafe"
  "latinLower upperCafe = [CHR ''c'', CHR ''a'', CHR ''f'', CHR 0xC3, CHR 0xA9, CHR ''!'']"
  by code_simp+

text \<open>The table of TestNormalizeServiceName.\<close>

lemma NormalizeServiceName_tests:
  "NormalizeServiceName u ''normal'' = ''normal''"
  "NormalizeServiceName u ''camelCase'' = ''camelcase''"
  "NormalizeServiceName u ''PascalCase'' = ''pascalcase''"
  "NormalizeServiceName u ''hyphen-ok'' = ''hyphen-ok''"
  "NormalizeServiceName u ''snake_case'' = ''snake-case''"
  "NormalizeServiceName u ''$ymb0ls'' = ''-ymb0ls''"
  "NormalizeServiceName u ''consecutive--hyphens'' = ''consecutive-hyphens''"
  "NormalizeServiceName u ''hyphen-$ymbol'' = ''hyphen-ymbol''"
  "NormalizeServiceName u ''_blah'' = ''-blah''"
  by code_simp+

text \<open>
  Claim C9. \<open>NormalizeServiceName\<close> is idempotent, and it is the function the
  specification describes: the lowered name with every maximal run of non-alphanumerics
  replaced by one hyphen (\<open>spec_normalize\<close>). Spelled out: the result is collapsed (only
  alphanumerics and single hyphens); a name of alphanumerics only is lowered and
  otherwise left alone; a run of non-alphanumerics anywhere in an ASCII name, between
  the alphanumeric that ends what comes before it and the alphanumeric that starts what
  comes after it, becomes exactly one hyphen between the normalised parts; a run at the
  front becomes a leading hyphen and is not stripped; and the same holds of the runs of
  the lowered name when the name is not ASCII.
  Idempotence holds outright for a name of ASCII bytes. For any other name the lowering
  is done by the Unicode tables of the Go library (\<open>u\<close>), about which it needs one
  fact: they never produce an ASCII capital letter.
\<close>

theorem NormalizeServiceName_idempotent:
  "((\<not> list_all isASCII s \<longrightarrow> (\<forall>c\<in>set (u s). \<not> isUpper c)) \<longrightarrow>
      NormalizeServiceName u (NormalizeServiceName u s) = NormalizeServiceName u s) \<and>
   NormalizeServiceName u s = spec_normalize u s \<and>
   collapsed (NormalizeServiceName u s) \<and>
   (list_all isAlnum s \<longrightarrow> NormalizeServiceName u s = map asciiLower s) \<and>
   (\<forall>a r b. s = a @ r @ b \<and> list_all isASCII s \<and> r \<noteq> [] \<and> (\<forall>d\<in>set r. \<not> isAlnum d) \<and>
        (a = [] \<or> isAlnum (last a)) \<and> (b = [] \<or> isAlnum (hd b)) \<longrightarrow>
        NormalizeServiceName u s =
          NormalizeServiceName u a @ CHR ''-'' # NormalizeServiceName u b) \<and>
   (\<forall>r b. s = r @ b \<and> list_all isASCII s \<and> r \<noteq> [] \<and> (\<forall>d\<in>set r. \<not> isAlnum d) \<and>
        (b = [] \<or> isAlnum (hd b)) \<longrightarrow>
        NormalizeServiceName u s = CHR ''-'' # NormalizeServiceName u b) \<and>
   (\<forall>a r b. strings_ToLower u s = a @ r @ b \<and> r \<noteq> [] \<and> (\<forall>d\<in>set r. \<not> isAlnum d) \<and>
        (a = [] \<or> isAlnum (last a)) \<and> (b = [] \<or> isAlnum (hd b)) \<longrightarrow>
        NormalizeServiceName u s =
          replaceNonAlphanumeric a @ CHR ''-'' # replaceNonAlphanumeric b)"
proof (intro conjI allI impI)
  assume u: "\<not> list_all isASCII s \<longrightarrow> (\<forall>c\<in>set (u s). \<not> isUpper c)"
  have "strings_ToLower u (NormalizeServiceName u s) = NormalizeServiceName u s"
    using ToLower_ascii_fix[of "NormalizeServiceName u s" u] Normalize_chars[of s u] u
    by blast
  moreover have "collapsed (NormalizeServiceName u s)"
    by (simp add: NormalizeServiceName_def collapsed_replace)
  ultimately show "NormalizeServiceName u (NormalizeServiceName u s) = NormalizeServiceName u s"
    using replace_collapsed by (simp add: NormalizeServiceName_def)
next
  show "NormalizeServiceName u s = spec_normalize u s"
    by (simp add: NormalizeServiceName_def spec_normalize_def replace_runs)
next
  show "collapsed (NormalizeServiceName u s)"
    by (simp add: NormalizeServiceName_def collapsed_replace)
next
  assume "list_all isAlnum s"
  then show "NormalizeServiceName u s = map asciiLower s"
    by (rule Normalize_alnum)
next
  fix a r b
  assume h: "s = a @ r @ b \<and> list_all isASCII s \<and> r \<noteq> [] \<and> (\<forall>d\<in>set r. \<not> isAlnum d) \<and>
        (a = [] \<or> isAlnum (last a)) \<and> (b = [] \<or> isAlnum (hd b))"
  then have "list_all isASCII (a @ r @ b)" by blast
  from Normalize_run[OF this, of u] h
  show "NormalizeServiceName u s = NormalizeServiceName u a @ CHR ''-'' # NormalizeServiceName u b"
    by blast
next
  fix r b
  assume h: "s = r @ b \<and> list_all isASCII s \<and> r \<noteq> [] \<and> (\<forall>d\<in>set r. \<not> isAlnum d) \<and>
        (b = [] \<or> isAlnum (hd b))"
  then have "list_all isASCII ([] @ r @ b)" by auto
  from Normalize_run[OF this, of u] h
  have "NormalizeServiceName u ([] @ r @ b) =
      NormalizeServiceName u [] @ CHR ''-'' # NormalizeServiceName u b"
    by blast
  then show "NormalizeServiceName u s = CHR ''-'' # NormalizeServiceName u b"
    using h by (simp add: Normalize_ascii)
next
  fix a r b
  assume h: "strings_ToLower u s = a @ r @ b \<and> r \<noteq> [] \<and> (\<forall>d\<in>set r. \<not> isAlnum d) \<and>
        (a = [] \<or> isAlnum (last a)) \<and> (b = [] \<or> isAlnum (hd b))"
  then show "NormalizeServiceName u s =
      replaceNonAlphanumeric a @ CHR ''-'' # replaceNonAlphanumeric b"
    using lowered_run[of u s a r b] by blast
qed

theorem NormalizeServiceName_idempotent_witness:
  "list_all isASCII ''__Snake$$Case'' \<and>
   NormalizeServiceName (map asciiLower) ''__Snake$$Case'' = ''-snake-case'' \<and>
   NormalizeServiceName (map asciiLower) ''-snake-case'' = ''-snake-case'' \<and>
   spec_normalize (map asciiLower) ''__Snake$$Case'' = ''-snake-case'' \<and>
   collapsed ''-snake-case'' \<and>
   NormalizeServiceName (map asciiLower) ''__Snake'' @
     CHR ''-'' # NormalizeServiceName (map asciiLower) ''Case'' = ''-snake-case'' \<and>
   CHR ''-'' # NormalizeServiceName (map asciiLower) ''Snake$$Case'' = ''-snake-case'' \<and>
   list_all isAlnum ''PascalCase'' \<and>
   NormalizeServiceName (map asciiLower) ''PascalCase'' = map asciiLower ''PascalCase'' \<and>
   \<not> list_all isASCII upperCafe \<and>
   list_all (\<lambda>c. \<not> isUpper c) (latinLower upperCafe) \<and>
   NormalizeServiceName latinLower upperCafe = ''caf-'' \<and>
   NormalizeServiceName latinLower ''caf-'' = ''caf-'' \<and>
   NormalizeServiceName latinLower upperCafe =
     replaceNonAlphanumeric ''caf'' @ CHR ''-'' # replaceNonAlphanumeric ''''"
proof -
  let ?s = "''__Snake$$Case''" and ?u = "map asciiLower"
  note t = NormalizeServiceName_idempotent[of ?s ?u]
  have ascii: "list_all isASCII ?s"
    by (simp add: isASCII_def)
  have v: "NormalizeServiceName ?u ?s = ''-snake-case''"
    by code_simp
  have idem: "NormalizeServiceName ?u (NormalizeServiceName ?u ?s) = NormalizeServiceName ?u ?s"
    by (rule mp[OF t[THEN conjunct1]]) (use ascii in simp)
  have refines: "NormalizeServiceName ?u ?s = spec_normalize ?u ?s"
    by (rule t[THEN conjunct2, THEN conjunct1])
  have coll: "collapsed (NormalizeServiceName ?u ?s)"
    by (rule t[THEN conjunct2, THEN conjunct2, THEN conjunct1])
  have sides: "''$$'' \<noteq> []" "\<forall>d\<in>set ''$$''. \<not> isAlnum d" "isAlnum (last ''__Snake'')"
    "isAlnum (hd ''Case'')" "''__'' \<noteq> []" "\<forall>d\<in>set ''__''. \<not> isAlnum d"
    "isAlnum (hd ''Snake$$Case'')"
    by (simp_all add: isAlnum_def)
  have inner: "NormalizeServiceName ?u ?s =
      NormalizeServiceName ?u ''__Snake'' @ CHR ''-'' # NormalizeServiceName ?u ''Case''"
    by (rule t[THEN conjunct2, THEN conjunct2, THEN conjunct2, THEN conjunct2, THEN conjunct1,
          rule_format, of "''__Snake''" "''$$''" "''Case''"])
       (use ascii sides in simp)
  have front: "NormalizeServiceName ?u ?s = CHR ''-'' # NormalizeServiceName ?u ''Snake$$Case''"
    by (rule t[THEN conjunct2, THEN conjunct2, THEN conjunct2, THEN conjunct2, THEN conjunct2,
          THEN conjunct1, rule_format, of "''__''" "''Snake$$Case''"])
       (use ascii sides in simp)
  have alnum: "list_all isAlnum ''PascalCase''"
    by (simp add: isAlnum_def)
  have pascal: "NormalizeServiceName ?u ''PascalCase'' = map asciiLower ''PascalCase''"
    by (rule mp[OF NormalizeServiceName_idempotent[of "''PascalCase''" ?u,
          THEN conjunct2, THEN conjunct2, THEN conjunct2, THEN conjunct1] alnum])
  note c = NormalizeServiceName_idempotent[of upperCafe latinLower]
  have low: "list_all (\<lambda>c. \<not> isUpper c) (latinLower upperCafe)"
    by code_simp
  have cidem: "NormalizeServiceName latinLower (NormalizeServiceName latinLower upperCafe) =
      NormalizeServiceName latinLower upperCafe"
    by (rule mp[OF c[THEN conjunct1]]) (use low in \<open>simp add: list_all_iff\<close>)
  have lowered: "strings_ToLower latinLower upperCafe = ''caf'' @ [CHR 0xC3, CHR 0xA9, CHR ''!''] @ ''''"
    by (simp add: strings_ToLower_def cafe)
  have csides: "[CHR 0xC3, CHR 0xA9, CHR ''!''] \<noteq> []"
    "\<forall>d\<in>set [CHR 0xC3, CHR 0xA9, CHR ''!'']. \<not> isAlnum d" "isAlnum (last ''caf'')"
    by (simp_all add: isAlnum_def)
  have crun: "NormalizeServiceName latinLower upperCafe =
      replaceNonAlphanumeric ''caf'' @ CHR ''-'' # replaceNonAlphanumeric ''''"
    by (rule c[THEN conjunct2, THEN conjunct2, THEN conjunct2, THEN conjunct2, THEN conjunct2,
          THEN conjunct2, rule_format, of "''caf''" "[CHR 0xC3, CHR 0xA9, CHR ''!'']" "''''"])
       (use lowered csides in simp)
  show ?thesis
    using ascii v idem refines coll inner front alnum pascal cafe(1,2) low cidem crun
    by simp
qed

subsection \<open>Ports\<close>

lemma target_check:
  "(cfg_Target p < 1 \<or> cfg_Target p > 32767) = (\<not> targetInRange p)"
  unfolding targetInRange_def by (simp only: not_le de_Morgan_conj)

lemma published_check:
  "(cfg_Published p \<noteq> '''' \<and> cfg_Published p \<noteq> FormatUint (unat (cfg_Target p))) =
   (\<not> publishedOk p)"
  unfolding publishedOk_def by blast

lemmas convertPort_checks = convertPort_def[unfolded target_check published_check]

lemma FormatUint_1234: "FormatUint (unat (1234 :: 32 word)) = ''1234''"
  by code_simp

text \<open>
  Claim C7. The checks of \<open>convertPort\<close> are applied in the order target range,
  host IP, published value, protocol: each error is reported exactly when the checks
  before it pass and its own fails, whatever the later fields say; no descriptor is
  produced and the warning state is left alone. In particular a non-empty host IP always
  fails.
\<close>

theorem convertPort_check_order:
  "(\<not> targetInRange p \<longrightarrow>
      convertPort p g = (Inl (ErrPortTarget (cfg_Target p)), g)) \<and>
   (targetInRange p \<and> cfg_HostIP p \<noteq> '''' \<longrightarrow>
      convertPort p g = (Inl ErrPortHostIP, g)) \<and>
   (targetInRange p \<and> cfg_HostIP p = '''' \<and> \<not> publishedOk p \<longrightarrow>
      convertPort p g = (Inl (ErrPortPublished (cfg_Published p)), g)) \<and>
   (targetInRange p \<and> cfg_HostIP p = '''' \<and> publishedOk p \<and>
    cfg_Protocol p \<notin> set (map fst protocolNames) \<longrightarrow>
      convertPort p g = (Inl (ErrPortProtocol (cfg_Protocol p)), g)) \<and>
   (cfg_HostIP p \<noteq> '''' \<longrightarrow> (\<exists>e. convertPort p g = (Inl e, g)))"
proof (intro conjI impI)
  assume "\<not> targetInRange p"
  then show "convertPort p g = (Inl (ErrPortTarget (cfg_Target p)), g)"
    by (simp add: convertPort_checks)
next
  assume "targetInRange p \<and> cfg_HostIP p \<noteq> ''''"
  then show "convertPort p g = (Inl ErrPortHostIP, g)"
    by (simp add: convertPort_checks)
next
  assume "targetInRange p \<and> cfg_HostIP p = '''' \<and> \<not> publishedOk p"
  then show "convertPort p g = (Inl (ErrPortPublished (cfg_Published p)), g)"
    by (simp add: convertPort_checks)
next
  assume "targetInRange p \<and> cfg_HostIP p = '''' \<and> publishedOk p \<and>
    cfg_Protocol p \<notin> set (map fst protocolNames)"
  then show "convertPort p g = (Inl (ErrPortProtocol (cfg_Protocol p)), g)"
    by (simp add: convertPort_checks protocolNames_def)
next
  assume "cfg_HostIP p \<noteq> ''''"
  then show "\<exists>e. convertPort p g = (Inl e, g)"
    by (simp add: convertPort_checks)
qed

theorem convertPort_check_order_witness:
  "\<not> targetInRange allWrong \<and>
   convertPort allWrong noWarnings = (Inl (ErrPortTarget 0), noWarnings) \<and>
   targetInRange (allWrong\<lparr>cfg_Target := 80\<rparr>) \<and>
   convertPort (allWrong\<lparr>cfg_Target := 80\<rparr>) noWarnings = (Inl ErrPortHostIP, noWarnings) \<and>
   \<not> publishedOk (allWrong\<lparr>cfg_Target := 80, cfg_HostIP := ''''\<rparr>) \<and>
   convertPort (allWrong\<lparr>cfg_Target := 80, cfg_HostIP := ''''\<rparr>) noWarnings =
     (Inl (ErrPortPublished ''1111-2222''), noWarnings) \<and>
   publishedOk (allWrong\<lparr>cfg_Target := 80, cfg_HostIP := '''', cfg_Published := ''''\<rparr>) \<and>
   convertPort (allWrong\<lparr>cfg_Target := 80, cfg_HostIP := '''', cfg_Published := ''''\<rparr>)
     noWarnings = (Inl (ErrPortProtocol ''sctp''), noWarnings)"
proof -
  have h1: "\<not> targetInRange allWrong"
    by (simp add: targetInRange_def allWrong_def)
  have h2: "targetInRange (allWrong\<lparr>cfg_Target := 80\<rparr>)"
    "cfg_HostIP (allWrong\<lparr>cfg_Target := 80\<rparr>) \<noteq> ''''"
    by (simp_all add: targetInRange_def allWrong_def)
  have h3: "targetInRange (allWrong\<lparr>cfg_Target := 80, cfg_HostIP := ''''\<rparr>)"
    "\<not> publishedOk (allWrong\<lparr>cfg_Target := 80, cfg_HostIP := ''''\<rparr>)"
    by (simp_all add: targetInRange_def publishedOk_def allWrong_def)
  have h4:
    "targetInRange (allWrong\<lparr>cfg_Target := 80, cfg_HostIP := '''', cfg_Published := ''''\<rparr>)"
    "publishedOk (allWrong\<lparr>cfg_Target := 80, cfg_HostIP := '''', cfg_Published := ''''\<rparr>)"
    "cfg_Protocol (allWrong\<lparr>cfg_Target := 80, cfg_HostIP := '''', cfg_Published := ''''\<rparr>)
       \<notin> set (map fst protocolNames)"
    by (simp_all add: targetInRange_def publishedOk_def allWrong_def protocolNames_def)
  show ?thesis
    using h1 h2 h3 h4
      convertPort_check_order[of allWrong noWarnings]
      convertPort_check_order[of "allWrong\<lparr>cfg_Target := 80\<rparr>" noWarnings]
      convertPort_check_order[of "allWrong\<lparr>cfg_Target := 80, cfg_HostIP := ''''\<rparr>" noWarnings]
      convertPort_check_order[of
        "allWrong\<lparr>cfg_Target := 80, cfg_HostIP := '''', cfg_Published := ''''\<rparr>" noWarnings]
    by (simp add: allWrong_def)
qed

lemma convertPort_valid:
  assumes "targetInRange p" "cfg_HostIP p = ''''" "publishedOk p"
    and "(cfg_Protocol p, pr) \<in> set protocolNames"
  shows "convertPort p g =
     convertPort_mode p \<lparr>pb_Target = cfg_Target p, pb_Protocol = pr, pb_Mode = Mode_HOST\<rparr> g"
proof -
  from assms(4) consider
      "cfg_Protocol p = ''''" "pr = Protocol_ANY"
    | "cfg_Protocol p = ''tcp''" "pr = Protocol_TCP"
    | "cfg_Protocol p = ''udp''" "pr = Protocol_UDP"
    | "cfg_Protocol p = ''http''" "pr = Protocol_HTTP"
    | "cfg_Protocol p = ''http2''" "pr = Protocol_HTTP2"
    | "cfg_Protocol p = ''grpc''" "pr = Protocol_GRPC"
    unfolding protocolNames_def by auto
  then show ?thesis
    using assms(1-3) by cases (simp_all add: convertPort_checks newPort_def)
qed

lemma convertPort_mode_warns:
  "Warnings (snd (convertPort_mode p pb g)) \<noteq> Warnings g \<Longrightarrow>
   HadWarnings (snd (convertPort_mode p pb g))"
  by (auto simp: convertPort_mode_def warn_def split: if_splits)

text \<open>
  Claim C8. For a port that passes the four checks, with \<open>pr\<close> the descriptor protocol
  its protocol string names: an empty mode gives host mode and a warning; \<open>host\<close> gives
  host mode; \<open>ingress\<close> with a published value gives host mode, the protocol as it was
  and a warning; \<open>ingress\<close> without published value and with tcp or udp gives ingress
  mode, protocol HTTP and a warning; \<open>ingress\<close> otherwise gives ingress mode and the
  protocol as it was; any other mode is an error. Every warning sets \<open>HadWarnings\<close>.
\<close>

theorem convertPort_mode_resolution:
  assumes "targetInRange p" "cfg_HostIP p = ''''" "publishedOk p"
    and "(cfg_Protocol p, pr) \<in> set protocolNames"
  shows
  "(cfg_Mode p = '''' \<longrightarrow>
      convertPort p g =
        (Inr \<lparr>pb_Target = cfg_Target p, pb_Protocol = pr, pb_Mode = Mode_HOST\<rparr>,
         warn ''No port mode was specified; assuming 'host' (add 'mode' to silence)'' g)) \<and>
   (cfg_Mode p = ''host'' \<longrightarrow>
      convertPort p g =
        (Inr \<lparr>pb_Target = cfg_Target p, pb_Protocol = pr, pb_Mode = Mode_HOST\<rparr>, g)) \<and>
   (cfg_Mode p = ''ingress'' \<and> cfg_Published p \<noteq> '''' \<longrightarrow>
      convertPort p g =
        (Inr \<lparr>pb_Target = cfg_Target p, pb_Protocol = pr, pb_Mode = Mode_HOST\<rparr>,
         warn ''Published ports are not supported in ingress mode; assuming 'host' (add 'mode' to silence)'' g)) \<and>
   (cfg_Mode p = ''ingress'' \<and> cfg_Published p = '''' \<and>
    (pr = Protocol_TCP \<or> pr = Protocol_UDP) \<longrightarrow>
      convertPort p g =
        (Inr \<lparr>pb_Target = cfg_Target p, pb_Protocol = Protocol_HTTP, pb_Mode = Mode_INGRESS\<rparr>,
         warn ''TCP ingress is not supported; assuming HTTP'' g)) \<and>
   (cfg_Mode p = ''ingress'' \<and> cfg_Published p = '''' \<and>
    pr \<noteq> Protocol_TCP \<and> pr \<noteq> Protocol_UDP \<longrightarrow>
      convertPort p g =
        (Inr \<lparr>pb_Target = cfg_Target p, pb_Protocol = pr, pb_Mode = Mode_INGRESS\<rparr>, g)) \<and>
   (cfg_Mode p \<notin> {'''', ''host'', ''ingress''} \<longrightarrow>
      convertPort p g = (Inl (ErrPortMode (cfg_Mode p)), g)) \<and>
   (\<forall>msg. HadWarnings (warn msg g)) \<and>
   (Warnings (snd (convertPort p g)) \<noteq> Warnings g \<longrightarrow> HadWarnings (snd (convertPort p g)))"
  unfolding convertPort_valid[OF assms]
  by (intro conjI impI allI)
     (simp_all add: convertPort_mode_def warn_def
        convertPort_mode_warns[unfolded convertPort_mode_def])

theorem convertPort_mode_resolution_witness:
  "targetInRange tcpIngressPublished \<and> cfg_HostIP tcpIngressPublished = '''' \<and>
   publishedOk tcpIngressPublished \<and>
   (cfg_Protocol tcpIngressPublished, Protocol_TCP) \<in> set protocolNames \<and>
   cfg_Mode tcpIngressPublished = ''ingress'' \<and> cfg_Published tcpIngressPublished \<noteq> '''' \<and>
   convertPort tcpIngressPublished noWarnings =
     (Inr \<lparr>pb_Target = 1234, pb_Protocol = Protocol_TCP, pb_Mode = Mode_HOST\<rparr>,
      \<lparr>HadWarnings = True,
       Warnings = [''Published ports are not supported in ingress mode; assuming 'host' (add 'mode' to silence)'']\<rparr>)"
proof -
  have h: "targetInRange tcpIngressPublished" "cfg_HostIP tcpIngressPublished = ''''"
    "publishedOk tcpIngressPublished"
    "(cfg_Protocol tcpIngressPublished, Protocol_TCP) \<in> set protocolNames"
    by (simp_all add: targetInRange_def publishedOk_def tcpIngressPublished_def
        protocolNames_def FormatUint_1234)
  show ?thesis
    using h convertPort_mode_resolution[OF h, of noWarnings]
    by (simp add: tcpIngressPublished_def noWarnings_def warn_def)
qed

section \<open>Properties of the packager\<close>

subsection \<open>The walk writes the selected entries\<close>

lemma zeroBlock_0: "zeroBlock 0 = []"
  by (simp add: zeroBlock_def)

lemma blockPadding_0: "blockPadding 0 = 0"
  by (simp add: blockPadding_def)

lemma header_of_entry:
  assumes "tar_FileInfoHeader de (Name de) = Inr h0"
  shows "h0\<lparr>hdr_ModTime := sourceDateEpoch, hdr_Gid := 0, hdr_Uid := 0,
            hdr_Name := filepath_ToSlash (relPathOf path)\<rparr> = entryHeader path de"
  using assms by (cases de) (auto simp: entryHeader_def headerOf_def Name_def)

lemma header_size: "hdr_Size (entryHeader path de) = length (entryContent de) \<or>
   (\<exists>fi e. de = Regular fi (Inl e))"
  by (cases de rule: entryContent.cases) (auto simp: entryHeader_def)

text \<open>What a successful addEntry does.\<close>

lemma addEntry_None:
  assumes "addEntry lib ctx (filepath_ToSlash (relPathOf path)) de st = (None, st')"
  shows "ctx = None \<and>
         flushed (tarWriter st') =
           flushed (tarWriter st) @ tarEntries lib [archiveEntry (path, de)] \<and>
         foundDockerfile st' = foundDockerfile st"
proof -
  obtain h0 where h0: "tar_FileInfoHeader de (Name de) = Inr h0"
    using assms by (cases "tar_FileInfoHeader de (Name de)") (auto simp: addEntry_def)
  let ?h = "entryHeader path de"
  have hdr: "h0\<lparr>hdr_ModTime := sourceDateEpoch, hdr_Gid := 0, hdr_Uid := 0,
            hdr_Name := filepath_ToSlash (relPathOf path)\<rparr> = ?h"
    by (rule header_of_entry[OF h0])
  obtain tw1 where tw1: "tar_WriteHeader lib ctx ?h (tarWriter st) = Inr tw1"
    using assms h0 hdr
    by (cases "tar_WriteHeader lib ctx ?h (tarWriter st)") (auto simp: addEntry_def Let_def)
  have ctx: "ctx = None"
    using tw1 by (cases ctx) (auto simp: tar_WriteHeader_def tar_Flush_def)
  obtain block where block: "tar_HeaderBytes lib ?h = Inr block"
    using tw1 ctx by (cases "tar_HeaderBytes lib ?h") (auto simp: tar_WriteHeader_def tar_Flush_def)
  have tw1_eq: "tw1 = \<lparr>tw_out = flushed (tarWriter st) @ block,
                       tw_pad = blockPadding (hdr_Size ?h)\<rparr>"
    using tw1 ctx block by (auto simp: tar_WriteHeader_def tar_Flush_def flushed_def)
  have hb: "headerBlock lib ?h = block"
    using block by (simp add: headerBlock_def)
  show ?thesis
  proof (cases de)
    case (Regular fi opened)
    show ?thesis
    proof (cases opened)
      case (Inl e)
      with Regular assms h0 hdr tw1 show ?thesis
        by (auto simp: addEntry_def Let_def)
    next
      case (Inr content)
      have w: "tar_Write ctx content tw1 = Inr (tw1\<lparr>tw_out := tw_out tw1 @ content\<rparr>)"
        using ctx by (auto simp: tar_Write_def)
      have st': "st' = st\<lparr>fileCount := fileCount st + 1,
                         tarWriter := tw1\<lparr>tw_out := tw_out tw1 @ content\<rparr>\<rparr>"
        using assms h0 hdr tw1 Regular Inr w
        by (auto simp: addEntry_def Let_def split: if_splits)
      have sz: "hdr_Size ?h = length content"
        using Regular Inr by (simp add: entryHeader_def)
      show ?thesis
        using ctx st' tw1_eq hb sz Regular Inr
        by (simp add: flushed_def archiveEntry_def)
    qed
  next
    case (Directory fi e ds)
    then have st': "st' = st\<lparr>tarWriter := tw1\<rparr>"
      using assms h0 hdr tw1 by (auto simp: addEntry_def Let_def)
    have sz: "hdr_Size ?h = 0" using Directory by (simp add: entryHeader_def)
    show ?thesis
      using ctx st' tw1_eq hb sz Directory
      by (simp add: flushed_def archiveEntry_def blockPadding_0 zeroBlock_0)
  next
    case (Symlink fi)
    then have st': "st' = st\<lparr>tarWriter := tw1\<rparr>"
      using assms h0 hdr tw1 by (auto simp: addEntry_def Let_def)
    have sz: "hdr_Size ?h = 0" using Symlink by (simp add: entryHeader_def)
    show ?thesis
      using ctx st' tw1_eq hb sz Symlink
      by (simp add: flushed_def archiveEntry_def blockPadding_0 zeroBlock_0)
  next
    case (Special fi)
    then have st': "st' = st\<lparr>tarWriter := tw1\<rparr>"
      using assms h0 hdr tw1 by (auto simp: addEntry_def Let_def)
    have sz: "hdr_Size ?h = 0" using Special by (simp add: entryHeader_def)
    show ?thesis
      using ctx st' tw1_eq hb sz Special
      by (simp add: flushed_def archiveEntry_def blockPadding_0 zeroBlock_0)
  next
    case (Socket fi)
    then show ?thesis using h0 by simp
  qed
qed

lemma tarEntries_append: "tarEntries lib (a @ b) = tarEntries lib a @ tarEntries lib b"
  by (induction a) auto

lemma wrote_refl: "wrote lib df st st []"
  by (simp add: wrote_def)

lemma wrote_trans:
  "wrote lib df st st1 a \<Longrightarrow> wrote lib df st1 st2 b \<Longrightarrow> wrote lib df st st2 (a @ b)"
  by (auto simp: wrote_def tarEntries_append)

lemma selected_subset:
  "set (selected keep p d) \<subseteq> set (selected (\<lambda>r. True) p d)"
  "set (selectedIn keep p ds) \<subseteq> set (selectedIn (\<lambda>r. True) p ds)"
  by (induction keep p d and keep p ds rule: selected_selectedIn.induct) auto

lemma selected_head:
  "(p, d) \<in> set (selected (\<lambda>r. True) p d)"
  by (cases d) auto

lemma everything_Directory:
  "everything p (Directory fi e ds) = (p, Directory fi e ds) # everythingIn p ds"
  by (simp add: everything_def everythingIn_def)

lemma everythingIn_Cons:
  "everythingIn p (d # ds) = everything (p @ [Name d]) d @ everythingIn p ds"
  by (simp add: everything_def everythingIn_def)

text \<open>The outcomes of the walk function at an entry below the root.\<close>

lemma walkFn_error:
  "walkFn lib ctx df di pm path entry (Some e) st = (Some (Err e), st)"
  by (simp add: walkFn_def)

lemma walkFn_result:
  assumes "walkFn lib ctx df di pm path (Some de) None st = (r, st')" "path \<noteq> []"
  shows
    "(r = Some SkipDir \<and> IsDir de \<and> st' = st \<and>
        pm (filepath_ToSlash (relPathOf path)) = Inr True \<and> relPathOf path \<noteq> di \<and>
        (foundDockerfile st \<or> relPathOf path \<noteq> df)) \<or>
     (r = None \<and> \<not> IsDir de \<and> st' = st \<and>
        pm (filepath_ToSlash (relPathOf path)) = Inr True \<and> relPathOf path \<noteq> di \<and>
        (foundDockerfile st \<or> relPathOf path \<noteq> df)) \<or>
     (\<exists>e. r = Some (Err e)) \<or>
     (r = None \<and> ctx = None \<and>
        ((\<not> foundDockerfile st \<and> relPathOf path = df) \<or> relPathOf path = di \<or>
         pm (filepath_ToSlash (relPathOf path)) = Inr False) \<and>
        wrote lib df st st' [(path, de)])"
proof -
  let ?rel = "relPathOf path"
  let ?base = "filepath_ToSlash ?rel"
  have add: "\<And>s0. returning (addEntry lib ctx ?base de s0) = (r, st') \<Longrightarrow>
      (\<exists>e. r = Some (Err e)) \<or>
      (r = None \<and> ctx = None \<and>
       flushed (tarWriter st') = flushed (tarWriter s0) @ tarEntries lib [archiveEntry (path, de)] \<and>
       foundDockerfile st' = foundDockerfile s0)"
  proof -
    fix s0 assume a: "returning (addEntry lib ctx ?base de s0) = (r, st')"
    obtain r0 s1 where r0: "addEntry lib ctx ?base de s0 = (r0, s1)"
      by (cases "addEntry lib ctx ?base de s0") auto
    show "(\<exists>e. r = Some (Err e)) \<or>
      (r = None \<and> ctx = None \<and>
       flushed (tarWriter st') = flushed (tarWriter s0) @ tarEntries lib [archiveEntry (path, de)] \<and>
       foundDockerfile st' = foundDockerfile s0)"
    proof (cases r0)
      case None
      with a r0 have "r = None" "st' = s1" by (auto simp: returning_def)
      with None r0 addEntry_None[of lib ctx path de s0 s1] show ?thesis by simp
    next
      case (Some e)
      with a r0 show ?thesis by (auto simp: returning_def)
    qed
  qed
  show ?thesis
  proof (cases "\<not> foundDockerfile st \<and> ?rel = df")
    case True
    then have "returning (addEntry lib ctx ?base de (st\<lparr>foundDockerfile := True\<rparr>)) = (r, st')"
      using assms by (simp add: walkFn_def relPathOf_def Let_def)
    from add[OF this] True show ?thesis
      by (auto simp: wrote_def)
  next
    case nf: False
    show ?thesis
    proof (cases "?rel = di")
      case True
      then have "returning (addEntry lib ctx ?base de st) = (r, st')"
        using assms nf by (auto simp: walkFn_def relPathOf_def Let_def)
      from add[OF this] True nf show ?thesis
        by (auto simp: wrote_def)
    next
      case nd: False
      show ?thesis
      proof (cases "pm ?base")
        case (Inl e)
        then show ?thesis
          using assms nf nd by (auto simp: walkFn_def relPathOf_def Let_def)
      next
        case (Inr ignore)
        show ?thesis
        proof (cases ignore)
          case True
          then show ?thesis
            using assms nf nd Inr
            by (auto simp: walkFn_def relPathOf_def Let_def split: if_splits)
        next
          case False
          then have "returning (addEntry lib ctx ?base de st) = (r, st')"
            using assms nf nd Inr by (auto simp: walkFn_def relPathOf_def Let_def)
          from add[OF this] False Inr nf nd show ?thesis
            by (auto simp: wrote_def)
        qed
      qed
    qed
  qed
qed

lemma walk_refines:
  "walkDir (walkFn lib ctx df di pm) path d st = (r, st') \<Longrightarrow> path \<noteq> [] \<Longrightarrow>
   distinct (rels (everything path d)) \<Longrightarrow>
   (foundDockerfile st \<longrightarrow> df \<notin> set (rels (everything path d))) \<Longrightarrow>
   r \<noteq> Some SkipDir \<and>
   (r = None \<longrightarrow> wrote lib df st st' (selected (included df di pm) path d))"
  "walkDirs (walkFn lib ctx df di pm) path ds st = (r, st') \<Longrightarrow>
   distinct (rels (everythingIn path ds)) \<Longrightarrow>
   (foundDockerfile st \<longrightarrow> df \<notin> set (rels (everythingIn path ds))) \<Longrightarrow>
   r \<noteq> Some SkipDir \<and>
   (r = None \<longrightarrow> wrote lib df st st' (selectedIn (included df di pm) path ds))"
proof (induction "walkFn lib ctx df di pm" path d st and "walkFn lib ctx df di pm" path ds st
       arbitrary: r st' and r st' rule: walkDir_walkDirs.induct)
  case (1 path fi rderr dirs s)
  let ?fn = "walkFn lib ctx df di pm"
  let ?d = "Directory fi rderr dirs"
  let ?rel = "relPathOf path"
  have head: "(path, ?d) \<in> set (everything path ?d)"
    by (simp add: everything_def)
  obtain r0 s1 where r0: "?fn path (Some ?d) None s = (r0, s1)"
    by (cases "?fn path (Some ?d) None s") auto
  from walkFn_result[OF r0 \<open>path \<noteq> []\<close>]
  consider
      (skip) "r0 = Some SkipDir" "s1 = s"
        "pm (filepath_ToSlash ?rel) = Inr True" "?rel \<noteq> di" "foundDockerfile s \<or> ?rel \<noteq> df"
    | (err) e where "r0 = Some (Err e)"
    | (add) "r0 = None" "ctx = None"
        "(\<not> foundDockerfile s \<and> ?rel = df) \<or> ?rel = di \<or> pm (filepath_ToSlash ?rel) = Inr False"
        "wrote lib df s s1 [(path, ?d)]"
    by auto
  then show ?case
  proof cases
    case skip
    have ndf: "?rel \<noteq> df"
      using skip(5) "1.prems"(4) head by force
    have "selected (included df di pm) path ?d = []"
      using skip(3,4) ndf by (simp add: included_def)
    moreover have "r = None" "st' = s"
      using "1.prems"(1) r0 skip by auto
    ultimately show ?thesis by (simp add: wrote_refl)
  next
    case err
    then show ?thesis using "1.prems"(1) r0 by auto
  next
    case add
    have keep: "included df di pm ?rel"
      using add(3) by (auto simp: included_def)
    have sel: "selected (included df di pm) path ?d =
        (path, ?d) # selectedIn (included df di pm) path dirs"
      using keep by simp
    have dist: "distinct (rels (everythingIn path dirs))"
      and nothead: "?rel \<notin> set (rels (everythingIn path dirs))"
      using "1.prems"(3) by (simp_all add: everything_Directory)
    have found1: "foundDockerfile s1 = (foundDockerfile s \<or> ?rel = df)"
      using add(4) by (auto simp: wrote_def)
    have fresh: "foundDockerfile s1 \<longrightarrow> df \<notin> set (rels (everythingIn path dirs))"
      using found1 "1.prems"(4) nothead by (auto simp: everything_Directory)
    show ?thesis
    proof (cases rderr)
      case None
      then have w: "walkDirs ?fn path dirs s1 = (r, st')"
        using "1.prems"(1) r0 add(1) by simp
      from "1.hyps"(1)[OF r0[symmetric] add(1) None w dist fresh]
      have "r \<noteq> Some SkipDir"
        and "r = None \<longrightarrow> wrote lib df s1 st' (selectedIn (included df di pm) path dirs)"
        by auto
      then show ?thesis
        using wrote_trans[OF add(4)] sel by auto
    next
      case (Some e)
      then have "r = Some (Err e)"
        using "1.prems"(1) r0 add(1) by (auto simp: walkFn_error)
      then show ?thesis by simp
    qed
  qed
next
  case (2 path fi c s)
  let ?d = "Regular fi c"
  have head: "(path, ?d) \<in> set (everything path ?d)" by (simp add: everything_def)
  have r0: "walkFn lib ctx df di pm path (Some ?d) None s = (r, st')"
    using "2.prems"(1) by simp
  from walkFn_result[OF r0 \<open>path \<noteq> []\<close>] "2.prems"(4) head
  show ?case
    by (auto simp: wrote_refl included_def everything_def)
next
  case (3 path fi s)
  let ?d = "Symlink fi"
  have r0: "walkFn lib ctx df di pm path (Some ?d) None s = (r, st')"
    using "3.prems"(1) by simp
  from walkFn_result[OF r0 \<open>path \<noteq> []\<close>] "3.prems"(4)
  show ?case
    by (auto simp: wrote_refl included_def everything_def)
next
  case (4 path fi s)
  let ?d = "Special fi"
  have r0: "walkFn lib ctx df di pm path (Some ?d) None s = (r, st')"
    using "4.prems"(1) by simp
  from walkFn_result[OF r0 \<open>path \<noteq> []\<close>] "4.prems"(4)
  show ?case
    by (auto simp: wrote_refl included_def everything_def)
next
  case (5 path fi s)
  let ?d = "Socket fi"
  have r0: "walkFn lib ctx df di pm path (Some ?d) None s = (r, st')"
    using "5.prems"(1) by simp
  from walkFn_result[OF r0 \<open>path \<noteq> []\<close>] "5.prems"(4)
  show ?case
    by (auto simp: wrote_refl included_def everything_def)
next
  case (6 path s)
  then show ?case by (simp add: wrote_refl)
next
  case (7 path d1 ds s)
  let ?fn = "walkFn lib ctx df di pm"
  let ?p1 = "path @ [Name d1]"
  obtain r1 s1 where r1: "walkDir ?fn ?p1 d1 s = (r1, s1)"
    by (cases "walkDir ?fn ?p1 d1 s") auto
  have d1: "distinct (rels (everything ?p1 d1))"
    and ds: "distinct (rels (everythingIn path ds))"
    and disj: "set (rels (everything ?p1 d1)) \<inter> set (rels (everythingIn path ds)) = {}"
    using "7.prems"(2) by (simp_all add: everythingIn_Cons)
  have f1: "foundDockerfile s \<longrightarrow> df \<notin> set (rels (everything ?p1 d1))"
    using "7.prems"(3) by (simp add: everythingIn_Cons)
  from "7.hyps"(1)[OF r1 _ d1 f1]
  have ns: "r1 \<noteq> Some SkipDir"
    and w1: "r1 = None \<longrightarrow> wrote lib df s s1 (selected (included df di pm) ?p1 d1)"
    by auto
  show ?case
  proof (cases r1)
    case None
    then have w: "walkDirs ?fn path ds s1 = (r, st')"
      using "7.prems"(1) r1 by simp
    have w1': "wrote lib df s s1 (selected (included df di pm) ?p1 d1)"
      using w1 None by simp
    have sub: "set (rels (selected (included df di pm) ?p1 d1)) \<subseteq> set (rels (everything ?p1 d1))"
      using selected_subset(1)[of "included df di pm" ?p1 d1] by (auto simp: everything_def)
    have f2: "foundDockerfile s1 \<longrightarrow> df \<notin> set (rels (everythingIn path ds))"
    proof
      assume "foundDockerfile s1"
      then consider "foundDockerfile s" | "df \<in> set (rels (selected (included df di pm) ?p1 d1))"
        using w1' by (auto simp: wrote_def)
      then show "df \<notin> set (rels (everythingIn path ds))"
      proof cases
        case 1
        then show ?thesis using "7.prems"(3) by (simp add: everythingIn_Cons)
      next
        case 2
        then have "df \<in> set (rels (everything ?p1 d1))" using sub by blast
        then show ?thesis using disj by blast
      qed
    qed
    from "7.hyps"(2)[OF r1[symmetric] None w ds f2]
    have "r \<noteq> Some SkipDir"
      and "r = None \<longrightarrow> wrote lib df s1 st' (selectedIn (included df di pm) path ds)"
      by auto
    then show ?thesis
      using wrote_trans[OF w1'] by auto
  next
    case (Some err)
    then show ?thesis
      using "7.prems"(1) r1 ns by (auto split: if_splits)
  qed
qed

subsection \<open>The order of the walk\<close>

lemma selected_prefix:
  "(q, x) \<in> set (selected keep p d) \<Longrightarrow> \<exists>r. q = p @ r"
  "(q, x) \<in> set (selectedIn keep p ds) \<Longrightarrow> \<exists>d\<in>set ds. \<exists>r. q = p @ Name d # r"
proof (induction keep p d and keep p ds arbitrary: q x and q x rule: selected_selectedIn.induct)
  case (1 keep path fi rderr dirs)
  then show ?case by (fastforce split: if_splits)
next
  case (7 keep path d ds)
  from "7.prems" consider "(q, x) \<in> set (selected keep (path @ [Name d]) d)"
    | "(q, x) \<in> set (selectedIn keep path ds)" by auto
  then show ?case
  proof cases
    case 1
    from "7.IH"(1)[OF this] show ?thesis by auto
  next
    case 2
    from "7.IH"(2)[OF this] show ?thesis by auto
  qed
qed (auto split: if_splits)

lemma less_append_self: "(p :: string list) < p @ n # r"
  by (induction p) auto

lemma less_append_Cons: "(n1 :: string) < n2 \<Longrightarrow> p @ n1 # r1 < p @ n2 # r2"
  by (induction p) auto

lemma sorted_selected:
  "wellFormed d \<Longrightarrow> sorted_wrt (<) (map fst (selected keep p d))"
  "wellFormedIn ds \<Longrightarrow> sorted_wrt (<) (map Name ds) \<Longrightarrow>
   sorted_wrt (<) (map fst (selectedIn keep p ds))"
proof (induction keep p d and keep p ds rule: selected_selectedIn.induct)
  case (1 keep path fi rderr dirs)
  have "\<forall>e\<in>set (selectedIn keep path dirs). path < fst e"
  proof
    fix e assume "e \<in> set (selectedIn keep path dirs)"
    then obtain d r where "fst e = path @ Name d # r"
      using selected_prefix(2)[of "fst e" "snd e" keep path dirs] by auto
    then show "path < fst e" by (simp add: less_append_self)
  qed
  with 1 show ?case by auto
next
  case (7 keep path d ds)
  have a: "sorted_wrt (<) (map fst (selected keep (path @ [Name d]) d))"
    using 7 by simp
  have b: "sorted_wrt (<) (map fst (selectedIn keep path ds))"
    using 7 by simp
  have c: "\<forall>e1\<in>set (selected keep (path @ [Name d]) d).
           \<forall>e2\<in>set (selectedIn keep path ds). fst e1 < fst e2"
  proof (intro ballI)
    fix e1 e2
    assume e1: "e1 \<in> set (selected keep (path @ [Name d]) d)"
      and e2: "e2 \<in> set (selectedIn keep path ds)"
    obtain r1 where r1: "fst e1 = path @ Name d # r1"
      using selected_prefix(1)[of "fst e1" "snd e1" keep "path @ [Name d]" d] e1 by auto
    obtain d2 r2 where d2: "d2 \<in> set ds" and r2: "fst e2 = path @ Name d2 # r2"
      using selected_prefix(2)[of "fst e2" "snd e2" keep path ds] e2 by auto
    have "Name d < Name d2" using "7.prems"(2) d2 by auto
    then show "fst e1 < fst e2" unfolding r1 r2 by (rule less_append_Cons)
  qed
  show ?case
    using a b c by (auto simp: sorted_wrt_append)
qed auto

lemma valid_selected:
  "(q, x) \<in> set (selected keep p d) \<Longrightarrow> wellFormed d \<Longrightarrow> p \<noteq> [] \<Longrightarrow>
   list_all validName p \<Longrightarrow> q \<noteq> [] \<and> list_all validName q"
  "(q, x) \<in> set (selectedIn keep p ds) \<Longrightarrow> wellFormedIn ds \<Longrightarrow> list_all validName p \<Longrightarrow>
   q \<noteq> [] \<and> list_all validName q"
proof (induction keep p d and keep p ds arbitrary: q x and q x rule: selected_selectedIn.induct)
  case (1 keep path fi rderr dirs)
  then show ?case by (auto split: if_splits)
next
  case (7 keep path d ds)
  from "7.prems"(1) consider "(q, x) \<in> set (selected keep (path @ [Name d]) d)"
    | "(q, x) \<in> set (selectedIn keep path ds)" by auto
  then show ?case
  proof cases
    case 1
    show ?thesis
      using "7.IH"(1)[OF 1] "7.prems"(2,3) by simp
  next
    case 2
    show ?thesis
      using "7.IH"(2)[OF 2] "7.prems"(2,3) by simp
  qed
qed (auto split: if_splits)

subsection \<open>Relative paths determine the path\<close>

lemma splitOn_nonempty: "splitOn c s \<noteq> []"
  by (induction s) (auto split: list.splits)

lemma splitOn_free: "c \<notin> set n \<Longrightarrow> splitOn c n = [n]"
  by (induction n) auto

lemma splitOn_append:
  "c \<notin> set n \<Longrightarrow> splitOn c (n @ c # rest) = n # splitOn c rest"
  by (induction n) auto

lemma split_join:
  "ns \<noteq> [] \<Longrightarrow> \<forall>n\<in>set ns. c \<notin> set n \<Longrightarrow> splitOn c (joinWith [c] ns) = ns"
proof (induction ns)
  case Nil
  then show ?case by simp
next
  case (Cons n ns)
  show ?case
  proof (cases ns)
    case Nil
    with Cons.prems show ?thesis by (simp add: splitOn_free)
  next
    case (Cons y ys)
    have free: "c \<notin> set n" using Cons.prems(2) by simp
    have ih: "splitOn c (joinWith [c] (y # ys)) = y # ys"
      using Cons.IH Cons.prems(2) Cons by simp
    have "joinWith [c] (n # y # ys) = n @ c # joinWith [c] (y # ys)" by simp
    then have "splitOn c (joinWith [c] (n # y # ys)) = n # splitOn c (joinWith [c] (y # ys))"
      using splitOn_append[OF free] by simp
    with ih Cons show ?thesis by simp
  qed
qed

lemma relPathOf_inj:
  assumes "p \<noteq> []" "q \<noteq> []" "list_all validName p" "list_all validName q"
    and "relPathOf p = relPathOf q"
  shows "p = q"
proof -
  have fp: "\<forall>n\<in>set p. Separator \<notin> set n" and fq: "\<forall>n\<in>set q. Separator \<notin> set n"
    using assms(3,4) by (simp_all add: validName_def list_all_iff)
  have sp: "splitOn Separator (relPathOf p) = p"
    unfolding relPathOf_def by (rule split_join[OF assms(1) fp])
  have sq: "splitOn Separator (relPathOf q) = q"
    unfolding relPathOf_def by (rule split_join[OF assms(2) fq])
  have "p = splitOn Separator (relPathOf p)" by (rule sp[symmetric])
  also have "\<dots> = splitOn Separator (relPathOf q)" by (rule arg_cong[OF assms(5)])
  also have "\<dots> = q" by (rule sq)
  finally show ?thesis .
qed

lemma distinct_rels:
  assumes "wellFormedIn ds" "sorted_wrt (<) (map Name ds)"
  shows "distinct (rels (everythingIn [] ds))"
proof -
  let ?sel = "everythingIn [] ds"
  have "sorted_wrt (<) (map fst ?sel)"
    using sorted_selected(2)[OF assms] by (simp add: everythingIn_def)
  then have d: "distinct (map fst ?sel)"
    using strict_sorted_iff by blast
  have v: "\<And>q x. (q, x) \<in> set ?sel \<Longrightarrow> q \<noteq> [] \<and> list_all validName q"
    using valid_selected(2)[OF _ assms(1), of _ _ "\<lambda>r. True" "[]"]
    by (simp add: everythingIn_def)
  have "inj_on relPathOf (set (map fst ?sel))"
  proof (rule inj_onI)
    fix a b
    assume a: "a \<in> set (map fst ?sel)" and b: "b \<in> set (map fst ?sel)"
      and eq: "relPathOf a = relPathOf b"
    from a obtain x where "(a, x) \<in> set ?sel" by auto
    from v[OF this] have va: "a \<noteq> []" "list_all validName a" by auto
    from b obtain y where "(b, y) \<in> set ?sel" by auto
    from v[OF this] have vb: "b \<noteq> []" "list_all validName b" by auto
    show "a = b" by (rule relPathOf_inj[OF va(1) vb(1) va(2) vb(2) eq])
  qed
  then have "distinct (map relPathOf (map fst ?sel))"
    using d by (simp only: distinct_map)
  then show ?thesis by (simp only: map_map)
qed

subsection \<open>The archive of a successful call\<close>

lemma flushed_empty: "flushed (tarWriter emptyTarball) = []"
  by (simp add: flushed_def emptyTarball_def zeroBlock_def)

lemma tar_Close_Inr:
  "tar_Close ctx tw = Inr tw' \<Longrightarrow> ctx = None \<and> tw_out tw' = flushed tw @ zeroBlock 1024"
  by (cases ctx) (auto simp: tar_Close_def tar_Flush_def flushed_def)

lemma WalkDir_root:
  assumes "os_Lstat fs root = Inr tree"
    and "WalkDir fs root (walkFn lib ctx df di pm) st = (None, st')"
  shows "walkDirs (walkFn lib ctx df di pm) [] (children tree) st = (None, st') \<or>
         (\<exists>r. walkDirs (walkFn lib ctx df di pm) [] (children tree) st = (Some SkipDir, st'))"
proof (cases tree)
  case (Directory fi rderr dirs)
  have fn: "\<And>e. walkFn lib ctx df di pm [] e None st = (None, st)"
    by (simp add: walkFn_def)
  show ?thesis
  proof (cases rderr)
    case None
    then show ?thesis
      using assms Directory fn
      by (cases "walkDirs (walkFn lib ctx df di pm) [] dirs st")
         (auto simp: WalkDir_def split: option.splits walk_error.splits)
  next
    case (Some e)
    then show ?thesis
      using assms Directory fn
      by (auto simp: WalkDir_def walkFn_error split: option.splits walk_error.splits)
  qed
next
  case (Regular fi c)
  then show ?thesis using assms by (auto simp: WalkDir_def walkFn_def)
next
  case (Symlink fi)
  then show ?thesis using assms by (auto simp: WalkDir_def walkFn_def)
next
  case (Special fi)
  then show ?thesis using assms by (auto simp: WalkDir_def walkFn_def)
next
  case (Socket fi)
  then show ?thesis using assms by (auto simp: WalkDir_def walkFn_def)
qed

lemma wellFormed_children:
  "wellFormed tree \<Longrightarrow> wellFormedIn (children tree) \<and> sorted_wrt (<) (map Name (children tree))"
  by (cases tree) auto

lemma createTarball_unfold:
  assumes "createTarball lib fs ctx root df0 = Inr archive"
  shows "\<exists>pm st tw.
     compileIgnoreFile lib (snd (resolveIgnoreFile fs root (declaredDockerfile df0))) = Inr pm \<and>
     WalkDir fs root (walkFn lib ctx (declaredDockerfile df0)
        (fst (resolveIgnoreFile fs root (declaredDockerfile df0))) pm) emptyTarball = (None, st) \<and>
     tar_Close ctx (tarWriter st) = Inr tw \<and> foundDockerfile st \<and>
     archive = gzip_Close lib (tw_out tw)"
  using assms
  by (auto simp: createTarball_def Let_def split: prod.splits sum.splits option.splits if_splits)

lemma createTarball_archive:
  assumes lstat: "os_Lstat fs root = Inr tree" and wf: "wellFormed tree"
    and ok: "createTarball lib fs ctx root df0 = Inr archive"
  shows "\<exists>pm.
     compileIgnoreFile lib (snd (resolveIgnoreFile fs root (declaredDockerfile df0))) = Inr pm \<and>
     archive = gzip_Close lib (tarStream lib (map archiveEntry
        (selectedIn (included (declaredDockerfile df0)
            (fst (resolveIgnoreFile fs root (declaredDockerfile df0))) pm) [] (children tree)))) \<and>
     declaredDockerfile df0 \<in> set (rels
        (selectedIn (included (declaredDockerfile df0)
            (fst (resolveIgnoreFile fs root (declaredDockerfile df0))) pm) [] (children tree)))"
proof -
  let ?df = "declaredDockerfile df0"
  let ?di = "fst (resolveIgnoreFile fs root ?df)"
  from createTarball_unfold[OF ok] obtain pm st tw where
    pm: "compileIgnoreFile lib (snd (resolveIgnoreFile fs root ?df)) = Inr pm"
    and walk: "WalkDir fs root (walkFn lib ctx ?df ?di pm) emptyTarball = (None, st)"
    and close: "tar_Close ctx (tarWriter st) = Inr tw"
    and found: "foundDockerfile st"
    and arch: "archive = gzip_Close lib (tw_out tw)"
    by blast
  let ?sel = "selectedIn (included ?df ?di pm) [] (children tree)"
  from WalkDir_root[OF lstat walk] obtain r where
    w: "walkDirs (walkFn lib ctx ?df ?di pm) [] (children tree) emptyTarball = (r, st)"
    and r: "r = None \<or> r = Some SkipDir"
    by auto
  have dist: "distinct (rels (everythingIn [] (children tree)))"
    using distinct_rels wellFormed_children[OF wf] by blast
  have fresh: "foundDockerfile emptyTarball \<longrightarrow>
      ?df \<notin> set (rels (everythingIn [] (children tree)))"
    by (simp add: emptyTarball_def)
  from walk_refines(2)[OF w dist fresh] r
  have wr: "wrote lib ?df emptyTarball st ?sel" by auto
  have out: "flushed (tarWriter st) = tarEntries lib (map archiveEntry ?sel)"
    using wr by (simp add: wrote_def flushed_empty)
  have fnd: "?df \<in> set (rels ?sel)"
    using wr found by (simp add: wrote_def emptyTarball_def)
  have "tw_out tw = tarStream lib (map archiveEntry ?sel)"
    using tar_Close_Inr[OF close] out by (simp add: tarStream_def)
  with pm arch fnd show ?thesis by (intro exI[of _ pm]) simp
qed

subsection \<open>The Dockerfile is found only among the selected entries\<close>

lemma walkDirs_no_SkipDir:
  "walkDirs fn path ds st = (r, st') \<Longrightarrow> r \<noteq> Some SkipDir"
  by (induction ds arbitrary: st)
     (auto split: prod.splits option.splits if_splits)

lemma walk_found:
  "walkDir (walkFn lib ctx df di pm) path d st = (None, st') \<Longrightarrow> path \<noteq> [] \<Longrightarrow>
   foundDockerfile st' \<Longrightarrow>
   foundDockerfile st \<or> df \<in> set (rels (selected (included df di pm) path d))"
  "walkDirs (walkFn lib ctx df di pm) path ds st = (None, st') \<Longrightarrow>
   foundDockerfile st' \<Longrightarrow>
   foundDockerfile st \<or> df \<in> set (rels (selectedIn (included df di pm) path ds))"
proof (induction "walkFn lib ctx df di pm" path d st and "walkFn lib ctx df di pm" path ds st
       arbitrary: st' and st' rule: walkDir_walkDirs.induct)
  case (1 path fi rderr dirs s)
  let ?fn = "walkFn lib ctx df di pm"
  let ?d = "Directory fi rderr dirs"
  let ?rel = "relPathOf path"
  obtain r0 s1 where r0: "?fn path (Some ?d) None s = (r0, s1)"
    by (cases "?fn path (Some ?d) None s") auto
  from walkFn_result[OF r0 \<open>path \<noteq> []\<close>]
  consider
      (skip) "r0 = Some SkipDir" "s1 = s"
    | (err) e where "r0 = Some (Err e)"
    | (add) "r0 = None"
        "(\<not> foundDockerfile s \<and> ?rel = df) \<or> ?rel = di \<or> pm (filepath_ToSlash ?rel) = Inr False"
        "wrote lib df s s1 [(path, ?d)]"
    by auto
  then show ?case
  proof cases
    case skip
    then have "st' = s" using "1.prems"(1) r0 by simp
    then show ?thesis using "1.prems"(3) by simp
  next
    case err
    then show ?thesis using "1.prems"(1) r0 by simp
  next
    case add
    have keep: "included df di pm ?rel"
      using add(2) by (auto simp: included_def)
    have found1: "foundDockerfile s1 = (foundDockerfile s \<or> ?rel = df)"
      using add(3) by (auto simp: wrote_def)
    show ?thesis
    proof (cases rderr)
      case None
      then have w: "walkDirs ?fn path dirs s1 = (None, st')"
        using "1.prems"(1) r0 add(1) by simp
      from "1.hyps"(1)[OF r0[symmetric] add(1) None w "1.prems"(3)]
      have "foundDockerfile s1 \<or> df \<in> set (rels (selectedIn (included df di pm) path dirs))" .
      then show ?thesis using found1 keep by auto
    next
      case (Some e)
      then show ?thesis
        using "1.prems"(1) r0 add(1) by (auto simp: walkFn_error)
    qed
  qed
next
  case (2 path fi c s)
  have r0: "walkFn lib ctx df di pm path (Some (Regular fi c)) None s = (None, st')"
    using "2.prems"(1) by simp
  from walkFn_result[OF r0 \<open>path \<noteq> []\<close>] "2.prems"(3)
  show ?case by (auto simp: wrote_def included_def)
next
  case (3 path fi s)
  have r0: "walkFn lib ctx df di pm path (Some (Symlink fi)) None s = (None, st')"
    using "3.prems"(1) by simp
  from walkFn_result[OF r0 \<open>path \<noteq> []\<close>] "3.prems"(3)
  show ?case by (auto simp: wrote_def included_def)
next
  case (4 path fi s)
  have r0: "walkFn lib ctx df di pm path (Some (Special fi)) None s = (None, st')"
    using "4.prems"(1) by simp
  from walkFn_result[OF r0 \<open>path \<noteq> []\<close>] "4.prems"(3)
  show ?case by (auto simp: wrote_def included_def)
next
  case (5 path fi s)
  have r0: "walkFn lib ctx df di pm path (Some (Socket fi)) None s = (None, st')"
    using "5.prems"(1) by simp
  from walkFn_result[OF r0 \<open>path \<noteq> []\<close>] "5.prems"(3)
  show ?case by (auto simp: wrote_def included_def)
next
  case (6 path s)
  then show ?case by simp
next
  case (7 path d1 ds s)
  let ?fn = "walkFn lib ctx df di pm"
  let ?p1 = "path @ [Name d1]"
  obtain r1 s1 where r1: "walkDir ?fn ?p1 d1 s = (r1, s1)"
    by (cases "walkDir ?fn ?p1 d1 s") auto
  show ?case
  proof (cases r1)
    case None
    then have w: "walkDirs ?fn path ds s1 = (None, st')"
      using "7.prems"(1) r1 by simp
    from "7.hyps"(2)[OF r1[symmetric] None w "7.prems"(2)]
    have a: "foundDockerfile s1 \<or> df \<in> set (rels (selectedIn (included df di pm) path ds))" .
    have b: "foundDockerfile s1 \<Longrightarrow>
        foundDockerfile s \<or> df \<in> set (rels (selected (included df di pm) ?p1 d1))"
      using "7.hyps"(1)[OF r1[unfolded None]] by simp
    show ?thesis using a b by auto
  next
    case (Some err)
    show ?thesis
    proof (cases "err = SkipDir")
      case True
      then have "st' = s1" using "7.prems"(1) r1 Some by simp
      have "r1 \<noteq> Some SkipDir"
      proof (cases d1)
        case (Directory fi rderr dirs)
        then show ?thesis
          using r1 walkDirs_no_SkipDir[of ?fn ?p1 dirs]
          by (auto split: prod.splits option.splits if_splits)
      next
        case (Regular fi c)
        then have "?fn ?p1 (Some d1) None s = (r1, s1)" using r1 by simp
        from walkFn_result[OF this] Regular show ?thesis by auto
      next
        case (Symlink fi)
        then have "?fn ?p1 (Some d1) None s = (r1, s1)" using r1 by simp
        from walkFn_result[OF this] Symlink show ?thesis by auto
      next
        case (Special fi)
        then have "?fn ?p1 (Some d1) None s = (r1, s1)" using r1 by simp
        from walkFn_result[OF this] Special show ?thesis by auto
      next
        case (Socket fi)
        then have "?fn ?p1 (Some d1) None s = (r1, s1)" using r1 by simp
        from walkFn_result[OF this] Socket show ?thesis by auto
      qed
      with Some True show ?thesis by simp
    next
      case False
      then show ?thesis using "7.prems"(1) r1 Some by simp
    qed
  qed
qed

subsection \<open>Which entries are selected\<close>

lemma everything_take:
  "(q, x) \<in> set (selected (\<lambda>r. True) p d) \<Longrightarrow> take (length p) q = p"
  "(q, x) \<in> set (selectedIn (\<lambda>r. True) p ds) \<Longrightarrow> take (length p) q = p \<and> length p < length q"
  using selected_prefix(1)[of q x "\<lambda>r. True" p d] selected_prefix(2)[of q x "\<lambda>r. True" p ds]
  by auto

lemma leaf_selected:
  assumes "selected keep p d = (if keep (relPathOf p) then [(p, d)] else [])"
  shows "((q, x) \<in> set (selected keep p d)) =
     ((q, x) \<in> set [(p, d)] \<and>
      (\<forall>k. length p \<le> k \<and> k \<le> length q \<longrightarrow> keep (relPathOf (take k q))))"
proof (cases "(q, x) = (p, d)")
  case True
  then have "\<And>k. length p \<le> k \<and> k \<le> length q \<Longrightarrow> take k q = p" by auto
  then show ?thesis using True assms by auto
next
  case False
  then show ?thesis using assms by (auto split: if_splits)
qed

lemma mem_selected:
  "((q, x) \<in> set (selected keep p d)) =
     ((q, x) \<in> set (selected (\<lambda>r. True) p d) \<and>
      (\<forall>k. length p \<le> k \<and> k \<le> length q \<longrightarrow> keep (relPathOf (take k q))))"
  "((q, x) \<in> set (selectedIn keep p ds)) =
     ((q, x) \<in> set (selectedIn (\<lambda>r. True) p ds) \<and>
      (\<forall>k. length p < k \<and> k \<le> length q \<longrightarrow> keep (relPathOf (take k q))))"
proof (induction keep p d and keep p ds arbitrary: q x and q x rule: selected_selectedIn.induct)
  case (1 keep path fi rderr dirs)
  let ?d = "Directory fi rderr dirs"
  let ?all = "\<forall>k. length path \<le> k \<and> k \<le> length q \<longrightarrow> keep (relPathOf (take k q))"
  let ?below = "\<forall>k. length path < k \<and> k \<le> length q \<longrightarrow> keep (relPathOf (take k q))"
  show ?case
  proof (cases "keep (relPathOf path)")
    case False
    have "\<not> ((q, x) \<in> set (selected (\<lambda>r. True) path ?d) \<and> ?all)"
    proof
      assume a: "(q, x) \<in> set (selected (\<lambda>r. True) path ?d) \<and> ?all"
      then have t: "take (length path) q = path" using everything_take(1) by blast
      then have "length path \<le> length q"
        by (metis length_take min.cobounded1)
      with a t have "keep (relPathOf path)" by (metis order_refl)
      with False show False by simp
    qed
    with False show ?thesis by simp
  next
    case True
    have ih: "((q, x) \<in> set (selectedIn keep path dirs)) =
        ((q, x) \<in> set (selectedIn (\<lambda>r. True) path dirs) \<and> ?below)"
      using "1.IH"[OF True] .
    show ?thesis
    proof (cases "(q, x) = (path, ?d)")
      case here: True
      then have "\<And>k. length path \<le> k \<and> k \<le> length q \<Longrightarrow> take k q = path" by auto
      then have ?all using True by auto
      then show ?thesis using here True by simp
    next
      case nothere: False
      have "(q, x) \<in> set (selectedIn (\<lambda>r. True) path dirs) \<Longrightarrow> (?all = ?below)"
      proof -
        assume "(q, x) \<in> set (selectedIn (\<lambda>r. True) path dirs)"
        then have t: "take (length path) q = path" using everything_take(2) by blast
        show "?all = ?below"
        proof
          assume ?all then show ?below by auto
        next
          assume b: ?below
          show ?all
          proof (intro allI impI)
            fix k assume k: "length path \<le> k \<and> k \<le> length q"
            show "keep (relPathOf (take k q))"
            proof (cases "k = length path")
              case True
              then show ?thesis using t \<open>keep (relPathOf path)\<close> by simp
            next
              case False
              then show ?thesis using b k by auto
            qed
          qed
        qed
      qed
      then show ?thesis using nothere True ih by auto
    qed
  qed
next
  case (2 keep path fi c)
  show ?case using leaf_selected[of keep path "Regular fi c" q x] by simp
next
  case (3 keep path fi)
  show ?case using leaf_selected[of keep path "Symlink fi" q x] by simp
next
  case (4 keep path fi)
  show ?case using leaf_selected[of keep path "Special fi" q x] by simp
next
  case (5 keep path fi)
  show ?case using leaf_selected[of keep path "Socket fi" q x] by simp
next
  case (6 keep path)
  show ?case by simp
next
  case (7 keep path d ds)
  have a: "((q, x) \<in> set (selected keep (path @ [Name d]) d)) =
     ((q, x) \<in> set (selected (\<lambda>r. True) (path @ [Name d]) d) \<and>
      (\<forall>k. length path < k \<and> k \<le> length q \<longrightarrow> keep (relPathOf (take k q))))"
    using "7.IH"(1)[of q x] by (simp add: Suc_le_eq)
  show ?case
    using a "7.IH"(2)[of q x] by auto
qed

subsection \<open>The length of the digest\<close>




subsection \<open>The example, evaluated\<close>

lemma testFS_Lstat: "os_Lstat testFS ''testproj'' = Inr testproj"
  by (simp add: testFS_def)

lemma testproj_wellFormed: "wellFormed testproj"
  by (simp add: testproj_def Name_def fileInfo_def validName_def Separator_def)

lemma Clean_Dockerfile: "filepath_Clean ''Dockerfile'' = ''Dockerfile''"
  by (simp add: filepath_Clean_def Separator_def cleanStep_def)

lemma Join_testproj:
  "filepath_Join ''testproj'' ''.dockerignore'' = ''testproj/.dockerignore''"
  "filepath_Join ''testproj'' ''Dockerfile.dockerignore'' = ''testproj/Dockerfile.dockerignore''"
  by (simp_all add: filepath_Join_def filepath_Clean_def Separator_def cleanStep_def)

lemma testFS_resolve:
  "resolveIgnoreFile testFS ''testproj'' ''Dockerfile'' = (''.dockerignore'', Inr ''ignored.txt'')"
  by (simp add: resolveIgnoreFile_def tryReadIgnoreFile_def Join_testproj testFS_def)

lemma testFS_compile:
  "compileIgnoreFile plainLibs (Inr ''ignored.txt'') = Inr testMatcher"
  by (simp add: compileIgnoreFile_def plainLibs_def testMatcher_def)

lemma testMatcher_values:
  "testMatcher ''fileName.env'' = Inr False"
  "testMatcher ''ignored.txt'' = Inr True"
  by (simp_all add: testMatcher_def plainMatch_def)


lemma length_zeroBlock: "length (zeroBlock n) = n"
  by (simp add: zeroBlock_def)

lemma testFS_walk:
  "WalkDir testFS ''testproj'' (walkFn plainLibs None ''Dockerfile'' ''.dockerignore'' testMatcher)
     emptyTarball =
   (None, \<lparr>foundDockerfile = True, fileCount = 3,
           tarWriter = \<lparr>tw_out = tarEntries plainLibs (map archiveEntry (butlast testEntries)) @
                                  headerBlock plainLibs (entryHeader [''fileName.env'']
                                     (Regular (fileInfo ''fileName.env'') (Inr ''A=1''))) @ ''A=1'',
                        tw_pad = 509\<rparr>\<rparr>)"
  by (simp add: WalkDir_def testFS_Lstat testproj_def walkFn_def addEntry_def returning_def
        tar_WriteHeader_def tar_Flush_def tar_Write_def plainLibs_def emptyTarball_def
        Name_def fileInfo_def headerOf_def Separator_def filepath_ToSlash_def
        testMatcher_values MiB_def blockPadding_def zeroBlock_0 length_zeroBlock
        archiveEntry_def entryHeader_def headerBlock_def testEntries_def relPathOf_def Let_def)

lemma testFS_createTarball:
  "createTarball plainLibs testFS None ''testproj'' '''' = Inr testArchive"
  by (simp add: createTarball_def declaredDockerfile_def testFS_resolve testFS_compile
        testFS_walk tar_Close_def tar_Flush_def testArchive_def tarStream_def
        testEntries_def archiveEntry_def blockPadding_def Let_def)

subsection \<open>A missing Dockerfile\<close>

lemma createTarball_walk:
  assumes "compileIgnoreFile lib (snd (resolveIgnoreFile fs root (declaredDockerfile dockerfile))) =
      Inr pm"
  shows "createTarball lib fs ctx root dockerfile =
     (case WalkDir fs root (walkFn lib ctx (declaredDockerfile dockerfile)
              (fst (resolveIgnoreFile fs root (declaredDockerfile dockerfile))) pm) emptyTarball of
        (Some err, st) \<Rightarrow> Inl err
      | (None, st) \<Rightarrow>
          (case tar_Close ctx (tarWriter st) of
             Inl err \<Rightarrow> Inl err
           | Inr tw \<Rightarrow>
               (if \<not> foundDockerfile st then Inl (ErrDockerfile (declaredDockerfile dockerfile))
                else Inr (gzip_Close lib (tw_out tw)))))"
proof -
  obtain di rd where r: "resolveIgnoreFile fs root (declaredDockerfile dockerfile) = (di, rd)"
    by (cases "resolveIgnoreFile fs root (declaredDockerfile dockerfile)") auto
  from assms r have c: "compileIgnoreFile lib rd = Inr pm"
    by simp
  show ?thesis
    unfolding createTarball_def Let_def r by (simp add: c)
qed

lemma walk_never_found:
  assumes lstat: "os_Lstat fs root = Inr tree"
    and walk: "WalkDir fs root (walkFn lib ctx df di pm) emptyTarball = (None, st)"
    and never: "df \<notin> set (rels (selectedIn (included df di pm) [] (children tree)))"
  shows "\<not> foundDockerfile st"
proof
  assume f: "foundDockerfile st"
  let ?fn = "walkFn lib ctx df di pm"
  have "walkDirs ?fn [] (children tree) emptyTarball \<noteq> (Some SkipDir, st)"
  proof
    assume "walkDirs ?fn [] (children tree) emptyTarball = (Some SkipDir, st)"
    from walkDirs_no_SkipDir[OF this] show False by simp
  qed
  with WalkDir_root[OF lstat walk]
  have w: "walkDirs ?fn [] (children tree) emptyTarball = (None, st)"
    by (elim disjE exE) simp_all
  have "\<not> foundDockerfile emptyTarball"
    by (simp add: emptyTarball_def)
  with walk_found(2)[OF w f] never show False
    by (elim disjE) simp_all
qed

lemma dockerfile_not_found:
  assumes lstat: "os_Lstat fs root = Inr tree"
    and pm: "compileIgnoreFile lib (snd (resolveIgnoreFile fs root (declaredDockerfile dockerfile))) =
      Inr pm"
    and never: "declaredDockerfile dockerfile \<notin> set (rels (selectedIn
        (included (declaredDockerfile dockerfile)
           (fst (resolveIgnoreFile fs root (declaredDockerfile dockerfile))) pm)
        [] (children tree)))"
  shows "createTarball lib fs ctx root dockerfile \<noteq> Inr archive"
    and "ctx = None \<Longrightarrow>
      fst (WalkDir fs root (walkFn lib ctx (declaredDockerfile dockerfile)
             (fst (resolveIgnoreFile fs root (declaredDockerfile dockerfile))) pm) emptyTarball) = None \<Longrightarrow>
      createTarball lib fs ctx root dockerfile = Inl (ErrDockerfile (declaredDockerfile dockerfile))"
proof -
  let ?df = "declaredDockerfile dockerfile"
  let ?di = "fst (resolveIgnoreFile fs root ?df)"
  show "createTarball lib fs ctx root dockerfile \<noteq> Inr archive"
  proof
    assume ok: "createTarball lib fs ctx root dockerfile = Inr archive"
    from createTarball_unfold[OF ok] obtain pm' st where
      pm': "compileIgnoreFile lib (snd (resolveIgnoreFile fs root ?df)) = Inr pm'"
      and walk: "WalkDir fs root (walkFn lib ctx ?df ?di pm') emptyTarball = (None, st)"
      and found: "foundDockerfile st"
      by blast
    from pm pm' have eq: "pm' = pm" by simp
    from walk_never_found[OF lstat walk[unfolded eq] never] found show False
      by (rule notE)
  qed
  show "createTarball lib fs ctx root dockerfile = Inl (ErrDockerfile ?df)"
    if ctx: "ctx = None"
      and w0: "fst (WalkDir fs root (walkFn lib ctx ?df ?di pm) emptyTarball) = None"
  proof -
    obtain st where w: "WalkDir fs root (walkFn lib ctx ?df ?di pm) emptyTarball = (None, st)"
      using w0 by (cases "WalkDir fs root (walkFn lib ctx ?df ?di pm) emptyTarball") simp
    have nf: "\<not> foundDockerfile st"
      by (rule walk_never_found[OF lstat w never])
    show ?thesis
      unfolding createTarball_walk[OF pm] w
      by (simp add: tar_Close_def tar_Flush_def nf ctx)
  qed
qed

subsection \<open>The choice of the ignore file\<close>

lemma tryRead_Some:
  "os_Open fs (filepath_Join root name) = Inr reader \<Longrightarrow> tryReadIgnoreFile fs root name = Some reader"
  by (simp add: tryReadIgnoreFile_def)

lemma tryRead_None:
  "os_Open fs (filepath_Join root name) = Inl e \<Longrightarrow> tryReadIgnoreFile fs root name = None"
  by (simp add: tryReadIgnoreFile_def)

lemma resolve_cases:
  "os_Open fs (filepath_Join root (df @ ''.dockerignore'')) = Inr reader \<Longrightarrow>
     resolveIgnoreFile fs root df = (df @ ''.dockerignore'', reader)"
  "os_Open fs (filepath_Join root (df @ ''.dockerignore'')) = Inl e \<Longrightarrow>
   os_Open fs (filepath_Join root ''.dockerignore'') = Inr reader \<Longrightarrow>
     resolveIgnoreFile fs root df = (''.dockerignore'', reader)"
  "os_Open fs (filepath_Join root (df @ ''.dockerignore'')) = Inl e \<Longrightarrow>
   os_Open fs (filepath_Join root ''.dockerignore'') = Inl e' \<Longrightarrow>
     resolveIgnoreFile fs root df = (''.dockerignore'', Inr defaultDockerIgnore)"
  by (simp_all add: resolveIgnoreFile_def tryRead_Some tryRead_None)

lemma createTarball_compile_error:
  assumes "compileIgnoreFile lib (snd (resolveIgnoreFile fs root (declaredDockerfile dockerfile))) =
      Inl e"
  shows "createTarball lib fs ctx root dockerfile = Inl e"
proof -
  obtain di rd where r: "resolveIgnoreFile fs root (declaredDockerfile dockerfile) = (di, rd)"
    by (cases "resolveIgnoreFile fs root (declaredDockerfile dockerfile)") auto
  from assms r have c: "compileIgnoreFile lib rd = Inl e"
    by simp
  show ?thesis
    unfolding createTarball_def Let_def r by (simp add: c)
qed

lemma createTarball_same_choice:
  assumes l: "os_Lstat fs' = os_Lstat fs"
    and r: "resolveIgnoreFile fs' root (declaredDockerfile dockerfile) =
            resolveIgnoreFile fs root (declaredDockerfile dockerfile)"
  shows "createTarball lib fs' ctx root dockerfile = createTarball lib fs ctx root dockerfile"
proof -
  have w: "\<And>fn st. WalkDir fs' root fn st = WalkDir fs root fn (st :: tarball)"
    by (simp add: WalkDir_def l)
  show ?thesis
    unfolding createTarball_def Let_def r w by (rule refl)
qed

section \<open>The claims about the packager\<close>

lemma entry_fields:
  "hdr_ModTime (fst (archiveEntry e)) = sourceDateEpoch"
  "hdr_Uid (fst (archiveEntry e)) = 0"
  "hdr_Gid (fst (archiveEntry e)) = 0"
  "hdr_Name (fst (archiveEntry e)) = joinWith ''/'' (fst e)"
  "hdr_Name (fst (archiveEntry e)) = relPathOf (fst e)"
  by (simp_all add: archiveEntry_def entryHeader_def filepath_ToSlash_def relPathOf_def
        Separator_def)

text \<open>
  Claim C3. When \<open>createTarball\<close> returns an archive for a well-formed tree, the archive
  is the tar stream, compressed, of exactly the selected entries: those entries of the tree
  for which the entry itself and every directory above it is included, where an entry is
  included when the compiled matcher does not match it or it is the declared Dockerfile
  or the resolved ignore file; so everything below a matched directory is left out. The
  names in the headers are the relative paths, the entries stand in the order of the walk
  (paths compared name by name), and the Dockerfile is among them.
\<close>

theorem createTarball_entries:
  assumes "os_Lstat fs root = Inr tree" and "wellFormed tree"
    and "createTarball lib fs ctx root dockerfile = Inr archive"
  shows "\<exists>pm sel.
     compileIgnoreFile lib (snd (resolveIgnoreFile fs root (declaredDockerfile dockerfile))) =
       Inr pm \<and>
     sel = selectedIn (included (declaredDockerfile dockerfile)
             (fst (resolveIgnoreFile fs root (declaredDockerfile dockerfile))) pm)
             [] (children tree) \<and>
     archive = gzip_Close lib (tarStream lib (map archiveEntry sel)) \<and>
     map (\<lambda>e. hdr_Name (fst (archiveEntry e))) sel = map (relPathOf \<circ> fst) sel \<and>
     sorted_wrt pathLess (map fst sel) \<and>
     declaredDockerfile dockerfile \<in> set (map (relPathOf \<circ> fst) sel) \<and>
     (\<forall>q x. ((q, x) \<in> set sel) =
        ((q, x) \<in> set (everythingIn [] (children tree)) \<and>
         (\<forall>k. 0 < k \<and> k \<le> length q \<longrightarrow>
            included (declaredDockerfile dockerfile)
              (fst (resolveIgnoreFile fs root (declaredDockerfile dockerfile))) pm
              (relPathOf (take k q))))) \<and>
     included (declaredDockerfile dockerfile)
       (fst (resolveIgnoreFile fs root (declaredDockerfile dockerfile))) pm
       (declaredDockerfile dockerfile) \<and>
     included (declaredDockerfile dockerfile)
       (fst (resolveIgnoreFile fs root (declaredDockerfile dockerfile))) pm
       (fst (resolveIgnoreFile fs root (declaredDockerfile dockerfile)))"
proof -
  let ?df = "declaredDockerfile dockerfile"
  let ?di = "fst (resolveIgnoreFile fs root ?df)"
  from createTarball_archive[OF assms] obtain pm where
    pm: "compileIgnoreFile lib (snd (resolveIgnoreFile fs root ?df)) = Inr pm"
    and arch: "archive = gzip_Close lib (tarStream lib (map archiveEntry
        (selectedIn (included ?df ?di pm) [] (children tree))))"
    and found: "?df \<in> set (rels (selectedIn (included ?df ?di pm) [] (children tree)))"
    by blast
  let ?sel = "selectedIn (included ?df ?di pm) [] (children tree)"
  have names: "map (\<lambda>e. hdr_Name (fst (archiveEntry e))) ?sel = map (relPathOf \<circ> fst) ?sel"
    by (simp add: entry_fields(5))
  have sorted: "sorted_wrt pathLess (map fst ?sel)"
    using sorted_selected(2)[of "children tree" "included ?df ?di pm" "[]"]
      wellFormed_children[OF assms(2)]
    by (simp add: pathLess_def[abs_def])
  have mem: "\<forall>q x. ((q, x) \<in> set ?sel) =
        ((q, x) \<in> set (everythingIn [] (children tree)) \<and>
         (\<forall>k. 0 < k \<and> k \<le> length q \<longrightarrow> included ?df ?di pm (relPathOf (take k q))))"
    using mem_selected(2)[of _ _ "included ?df ?di pm" "[]" "children tree"]
    by (simp add: everythingIn_def)
  have res: "included ?df ?di pm ?df" "included ?df ?di pm ?di"
    by (simp_all add: included_def)
  show ?thesis
    using pm arch names sorted found mem res by blast
qed

theorem createTarball_entries_witness:
  "os_Lstat testFS ''testproj'' = Inr testproj \<and> wellFormed testproj \<and>
   createTarball plainLibs testFS None ''testproj'' '''' = Inr testArchive \<and>
   testArchive = gzip_Close plainLibs (tarStream plainLibs (map archiveEntry
      (selectedIn (included ''Dockerfile'' ''.dockerignore'' testMatcher) [] (children testproj)))) \<and>
   map (relPathOf \<circ> fst)
      (selectedIn (included ''Dockerfile'' ''.dockerignore'' testMatcher) [] (children testproj)) =
     [''.dockerignore'', ''Dockerfile'', ''fileName.env'']"
proof -
  note h = testFS_Lstat testproj_wellFormed testFS_createTarball
  from createTarball_entries[OF h] obtain pm where
    pm: "compileIgnoreFile plainLibs (snd (resolveIgnoreFile testFS ''testproj''
           (declaredDockerfile ''''))) = Inr pm"
    and arch: "testArchive = gzip_Close plainLibs (tarStream plainLibs (map archiveEntry
          (selectedIn (included (declaredDockerfile '''')
             (fst (resolveIgnoreFile testFS ''testproj'' (declaredDockerfile ''''))) pm)
             [] (children testproj))))"
    by blast
  have df: "declaredDockerfile '''' = ''Dockerfile''" by (simp add: declaredDockerfile_def)
  have "pm = testMatcher"
    using pm by (simp add: df testFS_resolve testFS_compile)
  then have a: "testArchive = gzip_Close plainLibs (tarStream plainLibs (map archiveEntry
      (selectedIn (included ''Dockerfile'' ''.dockerignore'' testMatcher) [] (children testproj))))"
    using arch by (simp add: df testFS_resolve)
  have n: "map (relPathOf \<circ> fst)
      (selectedIn (included ''Dockerfile'' ''.dockerignore'' testMatcher) [] (children testproj)) =
     [''.dockerignore'', ''Dockerfile'', ''fileName.env'']"
    by (simp add: testproj_def included_def relPathOf_def Name_def fileInfo_def
          filepath_ToSlash_def Separator_def testMatcher_values)
  show ?thesis using h a n by simp
qed

lemma length_ustarField: "length (ustarField n s) = n"
  by (simp add: ustarField_def length_zeroBlock)

lemma ustar_compile:
  "compileIgnoreFile ustarLibs (Inr ''ignored.txt'') = Inr testMatcher"
  by (simp add: compileIgnoreFile_def ustarLibs_def plainLibs_def testMatcher_def)

lemma testFSRoot_resolve:
  "resolveIgnoreFile testFSRoot ''testproj'' ''Dockerfile'' = (''.dockerignore'', Inr ''ignored.txt'')"
  by (simp add: resolveIgnoreFile_def tryReadIgnoreFile_def Join_testproj testFS_def testFSRoot_def)

lemma testFSRoot_Lstat: "os_Lstat testFSRoot ''testproj'' = Inr testprojRoot"
  by (simp add: testFSRoot_def)

lemma ustar_fields:
  "tar_HeaderBytes ustarLibs h =
     Inr (ustarField 100 (hdr_Name h) @ zeroBlock 165 @
          ustarField 32 (hdr_Uname h) @ ustarField 32 (hdr_Gname h) @ zeroBlock 183)"
  "gzip_Len ustarLibs = length"
  "gzip_Close ustarLibs s = s"
  by (simp_all add: ustarLibs_def plainLibs_def)

lemmas walk_eval =
  WalkDir_def walkFn_def addEntry_def returning_def
  tar_WriteHeader_def tar_Flush_def tar_Write_def tar_Close_def emptyTarball_def
  Name_def headerOf_def Separator_def filepath_ToSlash_def
  testMatcher_values MiB_def blockPadding_def zeroBlock_0 length_zeroBlock
  relPathOf_def Let_def tarStream_def archiveEntry_def entryHeader_def headerBlock_def

lemma ustar_testFS:
  "createTarball ustarLibs testFS None ''testproj'' '''' =
     Inr (tarStream ustarLibs (map archiveEntry testEntries))"
  by (simp add: createTarball_def declaredDockerfile_def testFS_resolve ustar_compile
        testFS_Lstat testproj_def fileInfo_def testEntries_def
        ustar_fields length_ustarField walk_eval)

lemma ustar_testFSRoot:
  "createTarball ustarLibs testFSRoot None ''testproj'' '''' =
     Inr (tarStream ustarLibs (map archiveEntry testEntriesRoot))"
  by (simp add: createTarball_def declaredDockerfile_def testFSRoot_resolve ustar_compile
        testFSRoot_Lstat testprojRoot_def chownInfo_def testproj_def fileInfo_def testEntries_def
        testEntriesRoot_def
        ustar_fields length_ustarField walk_eval)

lemma ustar_dev_root: "ustarField 32 ''dev'' \<noteq> ustarField 32 ''root''"
  by (simp add: ustarField_def)

text \<open>
  Claim C2. Packaging is meant to be reproducible, and the walk function resets the
  modification time and the numeric owner and group of every header. It does not reset
  the names of the owner and of the group, which \<open>tar.FileInfoHeader\<close> has looked up
  and which the tar writer puts into the header. Here the example directory is packaged
  twice, once as it belongs to \<open>dev\<close> and once as it belongs to \<open>root\<close>, names, modes
  and contents being the same: both runs succeed and the two archives differ.
\<close>

theorem createTarball_owner_names:
  "createTarball ustarLibs testFS None ''testproj'' '''' =
     Inr (tarStream ustarLibs (map archiveEntry testEntries)) \<and>
   createTarball ustarLibs testFSRoot None ''testproj'' '''' =
     Inr (tarStream ustarLibs (map archiveEntry testEntriesRoot)) \<and>
   createTarball ustarLibs testFS None ''testproj'' '''' \<noteq>
     createTarball ustarLibs testFSRoot None ''testproj'' ''''"
proof -
  have "tarStream ustarLibs (map archiveEntry testEntries) \<noteq>
     tarStream ustarLibs (map archiveEntry testEntriesRoot)"
    by (simp add: tarStream_def testEntries_def testEntriesRoot_def archiveEntry_def
          entryHeader_def headerBlock_def ustar_fields chownInfo_def fileInfo_def length_ustarField
          append_eq_append_conv ustar_dev_root)
  then show ?thesis
    by (simp add: ustar_testFS ustar_testFSRoot)
qed








lemma plain_fields:
  "tar_HeaderBytes plainLibs h = Inr (take 512 (hdr_Name h @ zeroBlock 512))"
  "gzip_Len plainLibs = length"
  "gzip_Close plainLibs s = s"
  by (simp_all add: plainLibs_def)

lemma declared_default: "declaredDockerfile '''' = ''Dockerfile''"
  by (simp add: declaredDockerfile_def)

lemma Open_values:
  "os_Open bothFS ''testproj/Dockerfile.dockerignore'' = Inr (Inr ''fileName.env'')"
  "os_Open specificFS ''testproj/Dockerfile.dockerignore'' = Inr (Inr ''fileName.env'')"
  "os_Open testFS ''testproj/Dockerfile.dockerignore'' = Inl noFile"
  "os_Open testFS ''testproj/.dockerignore'' = Inr (Inr ''ignored.txt'')"
  "os_Open noneFS ''testproj/Dockerfile.dockerignore'' = Inl noFile"
  "os_Open noneFS ''testproj/.dockerignore'' = Inl noFile"
  "os_Open unreadableFS ''testproj/Dockerfile.dockerignore'' = Inl noFile"
  "os_Open unreadableFS ''testproj/.dockerignore'' = Inr (Inl readError)"
  by (simp_all add: bothFS_def specificFS_def testFS_def noneFS_def unreadableFS_def)

lemma Lstat_values:
  "os_Lstat bothFS = os_Lstat testFS"
  "os_Lstat specificFS = os_Lstat bothFS"
  by (simp_all add: bothFS_def specificFS_def)

lemma specific_compile:
  "compileIgnoreFile plainLibs (Inr ''fileName.env'') = Inr specificMatcher"
  by (simp add: compileIgnoreFile_def plainLibs_def specificMatcher_def)

lemma specificMatcher_values:
  "specificMatcher ''.dockerignore'' = Inr False"
  "specificMatcher ''fileName.env'' = Inr True"
  "specificMatcher ''ignored.txt'' = Inr False"
  by (simp_all add: specificMatcher_def plainMatch_def)

lemma bothFS_resolve:
  "resolveIgnoreFile bothFS ''testproj'' ''Dockerfile'' =
     (''Dockerfile.dockerignore'', Inr ''fileName.env'')"
  by (simp add: resolveIgnoreFile_def tryReadIgnoreFile_def Join_testproj Open_values)

lemma bothFS_createTarball:
  "createTarball plainLibs bothFS None ''testproj'' '''' =
     Inr (tarStream plainLibs (map archiveEntry specificEntries))"
  by (simp add: createTarball_def declared_default bothFS_resolve specific_compile
        Lstat_values testFS_Lstat testproj_def fileInfo_def specificEntries_def
        plain_fields specificMatcher_values
        WalkDir_def walkFn_def addEntry_def returning_def
        tar_WriteHeader_def tar_Flush_def tar_Write_def tar_Close_def emptyTarball_def
        Name_def headerOf_def Separator_def filepath_ToSlash_def
        MiB_def blockPadding_def zeroBlock_0 length_zeroBlock
        relPathOf_def Let_def tarStream_def archiveEntry_def entryHeader_def headerBlock_def)

lemma Join_default:
  "filepath_Join ''testproj'' (declaredDockerfile '''' @ ''.dockerignore'') =
     ''testproj/Dockerfile.dockerignore''"
  by (simp add: declared_default Join_testproj)

text \<open>
  Claim C6. The ignore file is chosen in this order: the file named after the declared
  Dockerfile with \<open>.dockerignore\<close> appended, in the context root, if it can be opened;
  else \<open>.dockerignore\<close> in the context root if it can be opened; else the built-in
  default patterns. The three cases exclude each other and leave nothing out, and
  \<open>createTarball\<close> uses the one choice made: a failure to read or compile the chosen
  patterns is the result of \<open>createTarball\<close>; an archive that is returned holds the
  entries selected by the matcher compiled from the chosen reader, with the chosen name
  as the reserved ignore file; and two file systems with the same tree and the same
  choice give the same result, whatever other ignore files they hold.
\<close>

theorem resolveIgnoreFile_order:
  "(\<forall>reader.
      os_Open fs (filepath_Join root (declaredDockerfile dockerfile @ ''.dockerignore'')) = Inr reader \<longrightarrow>
      resolveIgnoreFile fs root (declaredDockerfile dockerfile) =
        (declaredDockerfile dockerfile @ ''.dockerignore'', reader)) \<and>
   (\<forall>e reader.
      os_Open fs (filepath_Join root (declaredDockerfile dockerfile @ ''.dockerignore'')) = Inl e \<and>
      os_Open fs (filepath_Join root ''.dockerignore'') = Inr reader \<longrightarrow>
      resolveIgnoreFile fs root (declaredDockerfile dockerfile) = (''.dockerignore'', reader)) \<and>
   (\<forall>e e'.
      os_Open fs (filepath_Join root (declaredDockerfile dockerfile @ ''.dockerignore'')) = Inl e \<and>
      os_Open fs (filepath_Join root ''.dockerignore'') = Inl e' \<longrightarrow>
      resolveIgnoreFile fs root (declaredDockerfile dockerfile) =
        (''.dockerignore'', Inr defaultDockerIgnore)) \<and>
   (\<forall>e.
      compileIgnoreFile lib (snd (resolveIgnoreFile fs root (declaredDockerfile dockerfile))) = Inl e \<longrightarrow>
      createTarball lib fs ctx root dockerfile = Inl e) \<and>
   (\<forall>tree archive.
      os_Lstat fs root = Inr tree \<and> wellFormed tree \<and>
      createTarball lib fs ctx root dockerfile = Inr archive \<longrightarrow>
      (\<exists>pm. compileIgnoreFile lib (snd (resolveIgnoreFile fs root (declaredDockerfile dockerfile))) =
              Inr pm \<and>
            archive = gzip_Close lib (tarStream lib (map archiveEntry
              (selectedIn (included (declaredDockerfile dockerfile)
                  (fst (resolveIgnoreFile fs root (declaredDockerfile dockerfile))) pm)
                [] (children tree)))))) \<and>
   (\<forall>fs'.
      os_Lstat fs' = os_Lstat fs \<and>
      resolveIgnoreFile fs' root (declaredDockerfile dockerfile) =
        resolveIgnoreFile fs root (declaredDockerfile dockerfile) \<longrightarrow>
      createTarball lib fs' ctx root dockerfile = createTarball lib fs ctx root dockerfile)"
proof (intro conjI allI impI)
  fix reader
  assume "os_Open fs (filepath_Join root (declaredDockerfile dockerfile @ ''.dockerignore'')) = Inr reader"
  then show "resolveIgnoreFile fs root (declaredDockerfile dockerfile) =
        (declaredDockerfile dockerfile @ ''.dockerignore'', reader)"
    by (rule resolve_cases(1))
next
  fix e reader
  assume a: "os_Open fs (filepath_Join root (declaredDockerfile dockerfile @ ''.dockerignore'')) = Inl e \<and>
      os_Open fs (filepath_Join root ''.dockerignore'') = Inr reader"
  show "resolveIgnoreFile fs root (declaredDockerfile dockerfile) = (''.dockerignore'', reader)"
    by (rule resolve_cases(2)[OF conjunct1[OF a] conjunct2[OF a]])
next
  fix e e'
  assume a: "os_Open fs (filepath_Join root (declaredDockerfile dockerfile @ ''.dockerignore'')) = Inl e \<and>
      os_Open fs (filepath_Join root ''.dockerignore'') = Inl e'"
  show "resolveIgnoreFile fs root (declaredDockerfile dockerfile) =
        (''.dockerignore'', Inr defaultDockerIgnore)"
    by (rule resolve_cases(3)[OF conjunct1[OF a] conjunct2[OF a]])
next
  fix e
  assume "compileIgnoreFile lib (snd (resolveIgnoreFile fs root (declaredDockerfile dockerfile))) = Inl e"
  then show "createTarball lib fs ctx root dockerfile = Inl e"
    by (rule createTarball_compile_error)
next
  fix tree archive
  assume a: "os_Lstat fs root = Inr tree \<and> wellFormed tree \<and>
      createTarball lib fs ctx root dockerfile = Inr archive"
  from a have l: "os_Lstat fs root = Inr tree" and wf: "wellFormed tree"
    and ok: "createTarball lib fs ctx root dockerfile = Inr archive"
    by simp_all
  from createTarball_archive[OF l wf ok] obtain pm where
    "compileIgnoreFile lib (snd (resolveIgnoreFile fs root (declaredDockerfile dockerfile))) = Inr pm"
    "archive = gzip_Close lib (tarStream lib (map archiveEntry
              (selectedIn (included (declaredDockerfile dockerfile)
                  (fst (resolveIgnoreFile fs root (declaredDockerfile dockerfile))) pm)
                [] (children tree))))"
    by blast
  then show "\<exists>pm. compileIgnoreFile lib (snd (resolveIgnoreFile fs root (declaredDockerfile dockerfile))) =
              Inr pm \<and>
            archive = gzip_Close lib (tarStream lib (map archiveEntry
              (selectedIn (included (declaredDockerfile dockerfile)
                  (fst (resolveIgnoreFile fs root (declaredDockerfile dockerfile))) pm)
                [] (children tree))))"
    by (intro exI[of _ pm] conjI)
next
  fix fs'
  assume a: "os_Lstat fs' = os_Lstat fs \<and>
      resolveIgnoreFile fs' root (declaredDockerfile dockerfile) =
        resolveIgnoreFile fs root (declaredDockerfile dockerfile)"
  show "createTarball lib fs' ctx root dockerfile = createTarball lib fs ctx root dockerfile"
    by (rule createTarball_same_choice[OF conjunct1[OF a] conjunct2[OF a]])
qed

theorem resolveIgnoreFile_order_witness:
  "os_Open bothFS (filepath_Join ''testproj'' (declaredDockerfile '''' @ ''.dockerignore'')) =
     Inr (Inr ''fileName.env'') \<and>
   resolveIgnoreFile bothFS ''testproj'' (declaredDockerfile '''') =
     (''Dockerfile.dockerignore'', Inr ''fileName.env'') \<and>
   os_Open testFS (filepath_Join ''testproj'' (declaredDockerfile '''' @ ''.dockerignore'')) =
     Inl noFile \<and>
   os_Open testFS (filepath_Join ''testproj'' ''.dockerignore'') = Inr (Inr ''ignored.txt'') \<and>
   resolveIgnoreFile testFS ''testproj'' (declaredDockerfile '''') =
     (''.dockerignore'', Inr ''ignored.txt'') \<and>
   os_Open noneFS (filepath_Join ''testproj'' (declaredDockerfile '''' @ ''.dockerignore'')) =
     Inl noFile \<and>
   os_Open noneFS (filepath_Join ''testproj'' ''.dockerignore'') = Inl noFile \<and>
   resolveIgnoreFile noneFS ''testproj'' (declaredDockerfile '''') =
     (''.dockerignore'', Inr defaultDockerIgnore) \<and>
   createTarball plainLibs unreadableFS None ''testproj'' '''' = Inl readError \<and>
   createTarball plainLibs bothFS None ''testproj'' '''' =
     Inr (tarStream plainLibs (map archiveEntry specificEntries)) \<and>
   tarStream plainLibs (map archiveEntry specificEntries) =
     gzip_Close plainLibs (tarStream plainLibs (map archiveEntry
       (selectedIn (included ''Dockerfile'' ''Dockerfile.dockerignore'' specificMatcher)
          [] (children testproj)))) \<and>
   createTarball plainLibs specificFS None ''testproj'' '''' =
     createTarball plainLibs bothFS None ''testproj'' ''''"
proof -
  note both = resolveIgnoreFile_order[where fs = bothFS and root = "''testproj''"
      and dockerfile = "''''" and lib = plainLibs and ctx = None]
  note test = resolveIgnoreFile_order[where fs = testFS and root = "''testproj''"
      and dockerfile = "''''" and lib = plainLibs and ctx = None]
  note none = resolveIgnoreFile_order[where fs = noneFS and root = "''testproj''"
      and dockerfile = "''''" and lib = plainLibs and ctx = None]
  note unreadable = resolveIgnoreFile_order[where fs = unreadableFS and root = "''testproj''"
      and dockerfile = "''''" and lib = plainLibs and ctx = None]
  note specific = resolveIgnoreFile_order[where fs = specificFS and root = "''testproj''"
      and dockerfile = "''''" and lib = plainLibs and ctx = None]
  have o1: "os_Open bothFS (filepath_Join ''testproj'' (declaredDockerfile '''' @ ''.dockerignore'')) =
      Inr (Inr ''fileName.env'')"
    by (simp add: Join_default Open_values)
  have r1: "resolveIgnoreFile bothFS ''testproj'' (declaredDockerfile '''') =
      (declaredDockerfile '''' @ ''.dockerignore'', Inr ''fileName.env'')"
    by (rule both[THEN conjunct1, rule_format, OF o1])
  have o2: "os_Open testFS (filepath_Join ''testproj'' (declaredDockerfile '''' @ ''.dockerignore'')) =
      Inl noFile"
    "os_Open testFS (filepath_Join ''testproj'' ''.dockerignore'') = Inr (Inr ''ignored.txt'')"
    by (simp_all add: Join_default Join_testproj Open_values)
  have r2: "resolveIgnoreFile testFS ''testproj'' (declaredDockerfile '''') =
      (''.dockerignore'', Inr ''ignored.txt'')"
    by (rule test[THEN conjunct2, THEN conjunct1, rule_format, OF conjI[OF o2]])
  have o3: "os_Open noneFS (filepath_Join ''testproj'' (declaredDockerfile '''' @ ''.dockerignore'')) =
      Inl noFile"
    "os_Open noneFS (filepath_Join ''testproj'' ''.dockerignore'') = Inl noFile"
    by (simp_all add: Join_default Join_testproj Open_values)
  have r3: "resolveIgnoreFile noneFS ''testproj'' (declaredDockerfile '''') =
      (''.dockerignore'', Inr defaultDockerIgnore)"
    by (rule none[THEN conjunct2, THEN conjunct2, THEN conjunct1, rule_format, OF conjI[OF o3]])
  have o4: "os_Open unreadableFS (filepath_Join ''testproj'' (declaredDockerfile '''' @ ''.dockerignore'')) =
      Inl noFile"
    "os_Open unreadableFS (filepath_Join ''testproj'' ''.dockerignore'') = Inr (Inl readError)"
    by (simp_all add: Join_default Join_testproj Open_values)
  have r4: "resolveIgnoreFile unreadableFS ''testproj'' (declaredDockerfile '''') =
      (''.dockerignore'', Inl readError)"
    by (rule unreadable[THEN conjunct2, THEN conjunct1, rule_format, OF conjI[OF o4]])
  have c4: "compileIgnoreFile plainLibs
      (snd (resolveIgnoreFile unreadableFS ''testproj'' (declaredDockerfile ''''))) = Inl readError"
    by (simp add: r4 compileIgnoreFile_def)
  have w4: "createTarball plainLibs unreadableFS None ''testproj'' '''' = Inl readError"
    by (rule unreadable[THEN conjunct2, THEN conjunct2, THEN conjunct2, THEN conjunct1,
          rule_format, OF c4])
  have l5: "os_Lstat bothFS ''testproj'' = Inr testproj"
    by (simp add: Lstat_values testFS_Lstat)
  from both[THEN conjunct2, THEN conjunct2, THEN conjunct2, THEN conjunct2, THEN conjunct1,
      rule_format, OF conjI[OF l5 conjI[OF testproj_wellFormed bothFS_createTarball]]]
  obtain pm where
    pm: "compileIgnoreFile plainLibs
        (snd (resolveIgnoreFile bothFS ''testproj'' (declaredDockerfile ''''))) = Inr pm"
    and arch: "tarStream plainLibs (map archiveEntry specificEntries) =
      gzip_Close plainLibs (tarStream plainLibs (map archiveEntry
        (selectedIn (included (declaredDockerfile '''')
            (fst (resolveIgnoreFile bothFS ''testproj'' (declaredDockerfile ''''))) pm)
          [] (children testproj))))"
    by blast
  from pm have "pm = specificMatcher"
    by (simp add: declared_default bothFS_resolve specific_compile)
  with arch have w5: "tarStream plainLibs (map archiveEntry specificEntries) =
     gzip_Close plainLibs (tarStream plainLibs (map archiveEntry
       (selectedIn (included ''Dockerfile'' ''Dockerfile.dockerignore'' specificMatcher)
          [] (children testproj))))"
    by (simp add: declared_default bothFS_resolve)
  have o6: "os_Open specificFS (filepath_Join ''testproj'' (declaredDockerfile '''' @ ''.dockerignore'')) =
      Inr (Inr ''fileName.env'')"
    by (simp add: Join_default Open_values)
  have r6: "resolveIgnoreFile specificFS ''testproj'' (declaredDockerfile '''') =
      resolveIgnoreFile bothFS ''testproj'' (declaredDockerfile '''')"
    unfolding r1 by (rule specific[THEN conjunct1, rule_format, OF o6])
  have w6: "createTarball plainLibs specificFS None ''testproj'' '''' =
      createTarball plainLibs bothFS None ''testproj'' ''''"
    by (rule both[THEN conjunct2, THEN conjunct2, THEN conjunct2, THEN conjunct2, THEN conjunct2,
          rule_format, OF conjI[OF Lstat_values(2) r6]])
  show ?thesis
    using o1 r1 o2 r2 o3 r3 w4 bothFS_createTarball w5 w6
    by (simp add: declared_default)
qed

lemma declared_Dockerfile: "declaredDockerfile ''Dockerfile'' = ''Dockerfile''"
  by (simp add: declaredDockerfile_def Clean_Dockerfile)

lemma createTarball_default:
  "createTarball lib fs ctx root '''' = createTarball lib fs ctx root ''Dockerfile''"
  unfolding createTarball_def declared_default declared_Dockerfile by (rule refl)

lemma walkFn_Dockerfile:
  "\<not> foundDockerfile st \<Longrightarrow>
   walkFn lib ctx ''Dockerfile'' di pm [''Dockerfile''] (Some de) None st =
     returning (addEntry lib ctx ''Dockerfile'' de (st\<lparr>foundDockerfile := True\<rparr>))"
  by (simp add: walkFn_def filepath_ToSlash_def Separator_def Let_def)

text \<open>
  Claim C10. With an empty dockerfile path \<open>createTarball\<close> works with \<open>Dockerfile\<close>: the
  result is that of the call with \<open>Dockerfile\<close>; the first ignore file it tries is
  \<open>Dockerfile.dockerignore\<close> in the context root; the walk function writes the entry
  \<open>Dockerfile\<close> of the root whatever the matcher and the name of the ignore file are (and
  marks the Dockerfile as found); and when \<open>Dockerfile\<close> is not among the entries the
  walk reaches and includes, no archive is returned, the error being the
  dockerfile-not-found one for \<open>Dockerfile\<close> once the walk ends without an error and the
  context is not cancelled.
\<close>

theorem createTarball_default_dockerfile:
  "declaredDockerfile '''' = ''Dockerfile'' \<and>
   createTarball lib fs ctx root '''' = createTarball lib fs ctx root ''Dockerfile'' \<and>
   (\<forall>reader.
      os_Open fs (filepath_Join root ''Dockerfile.dockerignore'') = Inr reader \<longrightarrow>
      resolveIgnoreFile fs root (declaredDockerfile '''') = (''Dockerfile.dockerignore'', reader)) \<and>
   (\<forall>di pm de st.
      \<not> foundDockerfile st \<longrightarrow>
      walkFn lib ctx (declaredDockerfile '''') di pm [''Dockerfile''] (Some de) None st =
        returning (addEntry lib ctx ''Dockerfile'' de (st\<lparr>foundDockerfile := True\<rparr>))) \<and>
   (\<forall>tree pm.
      os_Lstat fs root = Inr tree \<and>
      compileIgnoreFile lib (snd (resolveIgnoreFile fs root ''Dockerfile'')) = Inr pm \<and>
      ''Dockerfile'' \<notin> set (map (relPathOf \<circ> fst) (selectedIn
          (included ''Dockerfile'' (fst (resolveIgnoreFile fs root ''Dockerfile'')) pm)
          [] (children tree))) \<longrightarrow>
      (\<forall>archive. createTarball lib fs ctx root '''' \<noteq> Inr archive) \<and>
      (ctx = None \<and>
       fst (WalkDir fs root (walkFn lib ctx ''Dockerfile''
              (fst (resolveIgnoreFile fs root ''Dockerfile'')) pm) emptyTarball) = None \<longrightarrow>
       createTarball lib fs ctx root '''' = Inl (ErrDockerfile ''Dockerfile'')))"
proof (intro conjI allI impI)
  show "declaredDockerfile '''' = ''Dockerfile''"
    by (rule declared_default)
next
  show "createTarball lib fs ctx root '''' = createTarball lib fs ctx root ''Dockerfile''"
    by (rule createTarball_default)
next
  fix reader
  assume "os_Open fs (filepath_Join root ''Dockerfile.dockerignore'') = Inr reader"
  then show "resolveIgnoreFile fs root (declaredDockerfile '''') = (''Dockerfile.dockerignore'', reader)"
    using resolve_cases(1)[of fs root "''Dockerfile''" reader] by (simp add: declared_default)
next
  fix di pm de and st :: tarball
  assume "\<not> foundDockerfile st"
  then show "walkFn lib ctx (declaredDockerfile '''') di pm [''Dockerfile''] (Some de) None st =
        returning (addEntry lib ctx ''Dockerfile'' de (st\<lparr>foundDockerfile := True\<rparr>))"
    unfolding declared_default by (rule walkFn_Dockerfile)
next
  fix tree pm archive
  assume a: "os_Lstat fs root = Inr tree \<and>
      compileIgnoreFile lib (snd (resolveIgnoreFile fs root ''Dockerfile'')) = Inr pm \<and>
      ''Dockerfile'' \<notin> set (map (relPathOf \<circ> fst) (selectedIn
          (included ''Dockerfile'' (fst (resolveIgnoreFile fs root ''Dockerfile'')) pm)
          [] (children tree)))"
  show "createTarball lib fs ctx root '''' \<noteq> Inr archive"
    by (rule dockerfile_not_found(1)[of fs root tree lib "''''" pm ctx archive,
          unfolded declared_default,
          OF conjunct1[OF a] conjunct1[OF conjunct2[OF a]] conjunct2[OF conjunct2[OF a]]])
next
  fix tree pm
  assume a: "os_Lstat fs root = Inr tree \<and>
      compileIgnoreFile lib (snd (resolveIgnoreFile fs root ''Dockerfile'')) = Inr pm \<and>
      ''Dockerfile'' \<notin> set (map (relPathOf \<circ> fst) (selectedIn
          (included ''Dockerfile'' (fst (resolveIgnoreFile fs root ''Dockerfile'')) pm)
          [] (children tree)))"
    and b: "ctx = None \<and>
       fst (WalkDir fs root (walkFn lib ctx ''Dockerfile''
              (fst (resolveIgnoreFile fs root ''Dockerfile'')) pm) emptyTarball) = None"
  show "createTarball lib fs ctx root '''' = Inl (ErrDockerfile ''Dockerfile'')"
    by (rule dockerfile_not_found(2)[of fs root tree lib "''''" pm ctx,
          unfolded declared_default,
          OF conjunct1[OF a] conjunct1[OF conjunct2[OF a]] conjunct2[OF conjunct2[OF a]]
             conjunct1[OF b] conjunct2[OF b]])
qed

lemma bareFS_resolve:
  "resolveIgnoreFile bareFS ''bareproj'' ''Dockerfile'' = (''.dockerignore'', Inr defaultDockerIgnore)"
  by (simp add: resolveIgnoreFile_def tryReadIgnoreFile_def bareFS_def)

lemma default_compile:
  "compileIgnoreFile plainLibs (Inr defaultDockerIgnore) = Inr defaultMatcher"
  by (simp add: compileIgnoreFile_def plainLibs_def defaultMatcher_def)

lemma defaultMatcher_README: "defaultMatcher ''README'' = Inr False"
  by code_simp

lemma bareFS_Lstat: "os_Lstat bareFS ''bareproj'' = Inr bareproj"
  by (simp add: bareFS_def)

lemma bareFS_walk:
  "fst (WalkDir bareFS ''bareproj''
     (walkFn plainLibs None ''Dockerfile'' ''.dockerignore'' defaultMatcher) emptyTarball) = None"
  by (simp add: WalkDir_def bareFS_Lstat bareproj_def walkFn_def addEntry_def returning_def
        tar_WriteHeader_def tar_Flush_def tar_Write_def plain_fields emptyTarball_def
        Name_def fileInfo_def headerOf_def Separator_def filepath_ToSlash_def
        defaultMatcher_README MiB_def blockPadding_def zeroBlock_0 length_zeroBlock
        Let_def)

lemma bareFS_selected:
  "''Dockerfile'' \<notin> set (map (relPathOf \<circ> fst) (selectedIn
      (included ''Dockerfile'' ''.dockerignore'' defaultMatcher) [] (children bareproj)))"
  by (simp add: bareproj_def included_def relPathOf_def Name_def fileInfo_def
        filepath_ToSlash_def Separator_def defaultMatcher_README)

lemma addEntry_Dockerfile:
  "returning (addEntry plainLibs None ''Dockerfile''
      (Regular (fileInfo ''Dockerfile'') (Inr ''FROM scratch''))
      (emptyTarball\<lparr>foundDockerfile := True\<rparr>)) =
   (None, \<lparr>foundDockerfile = True, fileCount = 1,
      tarWriter = \<lparr>tw_out = take 512 (''Dockerfile'' @ zeroBlock 512) @ ''FROM scratch'',
                   tw_pad = 500\<rparr>\<rparr>)"
  by (simp add: addEntry_def returning_def tar_WriteHeader_def tar_Flush_def tar_Write_def
        plain_fields emptyTarball_def Name_def fileInfo_def headerOf_def MiB_def
        blockPadding_def zeroBlock_0 length_zeroBlock Let_def)

theorem createTarball_default_dockerfile_witness:
  "os_Open bothFS (filepath_Join ''testproj'' ''Dockerfile.dockerignore'') =
     Inr (Inr ''fileName.env'') \<and>
   resolveIgnoreFile bothFS ''testproj'' (declaredDockerfile '''') =
     (''Dockerfile.dockerignore'', Inr ''fileName.env'') \<and>
   \<not> foundDockerfile emptyTarball \<and>
   matchAll ''Dockerfile'' = Inr True \<and>
   walkFn plainLibs None (declaredDockerfile '''') ''.dockerignore'' matchAll [''Dockerfile'']
     (Some (Regular (fileInfo ''Dockerfile'') (Inr ''FROM scratch''))) None emptyTarball =
     (None, \<lparr>foundDockerfile = True, fileCount = 1,
        tarWriter = \<lparr>tw_out = take 512 (''Dockerfile'' @ zeroBlock 512) @ ''FROM scratch'',
                     tw_pad = 500\<rparr>\<rparr>) \<and>
   os_Lstat bareFS ''bareproj'' = Inr bareproj \<and>
   compileIgnoreFile plainLibs (snd (resolveIgnoreFile bareFS ''bareproj'' ''Dockerfile'')) =
     Inr defaultMatcher \<and>
   ''Dockerfile'' \<notin> set (map (relPathOf \<circ> fst) (selectedIn
      (included ''Dockerfile'' (fst (resolveIgnoreFile bareFS ''bareproj'' ''Dockerfile''))
         defaultMatcher) [] (children bareproj))) \<and>
   fst (WalkDir bareFS ''bareproj''
     (walkFn plainLibs None ''Dockerfile'' (fst (resolveIgnoreFile bareFS ''bareproj'' ''Dockerfile''))
        defaultMatcher) emptyTarball) = None \<and>
   createTarball plainLibs bareFS None ''bareproj'' '''' = Inl (ErrDockerfile ''Dockerfile'') \<and>
   createTarball plainLibs testFS None ''testproj'' ''Dockerfile'' = Inr testArchive"
proof -
  note both = createTarball_default_dockerfile[where fs = bothFS and root = "''testproj''"
      and lib = plainLibs and ctx = None]
  note bare = createTarball_default_dockerfile[where fs = bareFS and root = "''bareproj''"
      and lib = plainLibs and ctx = None]
  note test = createTarball_default_dockerfile[where fs = testFS and root = "''testproj''"
      and lib = plainLibs and ctx = None]
  have o1: "os_Open bothFS (filepath_Join ''testproj'' ''Dockerfile.dockerignore'') =
      Inr (Inr ''fileName.env'')"
    by (simp add: Join_testproj Open_values)
  have r1: "resolveIgnoreFile bothFS ''testproj'' (declaredDockerfile '''') =
      (''Dockerfile.dockerignore'', Inr ''fileName.env'')"
    by (rule both[THEN conjunct2, THEN conjunct2, THEN conjunct1, rule_format, OF o1])
  have nf: "\<not> foundDockerfile emptyTarball"
    by (simp add: emptyTarball_def)
  have w: "walkFn plainLibs None (declaredDockerfile '''') ''.dockerignore'' matchAll [''Dockerfile'']
     (Some (Regular (fileInfo ''Dockerfile'') (Inr ''FROM scratch''))) None emptyTarball =
     (None, \<lparr>foundDockerfile = True, fileCount = 1,
        tarWriter = \<lparr>tw_out = take 512 (''Dockerfile'' @ zeroBlock 512) @ ''FROM scratch'',
                     tw_pad = 500\<rparr>\<rparr>)"
    unfolding both[THEN conjunct2, THEN conjunct2, THEN conjunct2, THEN conjunct1, rule_format, OF nf]
    by (rule addEntry_Dockerfile)
  have h2: "compileIgnoreFile plainLibs (snd (resolveIgnoreFile bareFS ''bareproj'' ''Dockerfile'')) =
     Inr defaultMatcher"
    by (simp add: bareFS_resolve default_compile)
  have h3: "''Dockerfile'' \<notin> set (map (relPathOf \<circ> fst) (selectedIn
      (included ''Dockerfile'' (fst (resolveIgnoreFile bareFS ''bareproj'' ''Dockerfile''))
         defaultMatcher) [] (children bareproj)))"
    using bareFS_selected by (simp add: bareFS_resolve)
  have h4: "fst (WalkDir bareFS ''bareproj''
     (walkFn plainLibs None ''Dockerfile'' (fst (resolveIgnoreFile bareFS ''bareproj'' ''Dockerfile''))
        defaultMatcher) emptyTarball) = None"
    using bareFS_walk by (simp add: bareFS_resolve)
  have e: "createTarball plainLibs bareFS None ''bareproj'' '''' = Inl (ErrDockerfile ''Dockerfile'')"
    by (rule bare[THEN conjunct2, THEN conjunct2, THEN conjunct2, THEN conjunct2, rule_format,
          OF conjI[OF bareFS_Lstat conjI[OF h2 h3]], THEN conjunct2, rule_format,
          OF conjI[OF refl h4]])
  have t: "createTarball plainLibs testFS None ''testproj'' ''Dockerfile'' = Inr testArchive"
    using test[THEN conjunct2, THEN conjunct1] testFS_createTarball by simp
  show ?thesis
    using o1 r1 nf w bareFS_Lstat h2 h3 h4 e t
    by (simp add: matchAll_def)
qed




















end
